theory Spec2Isabelle
  imports Complex_Main "HOL-Library.AList"
begin

section \<open>Python errors and NumPy values\<close>

text \<open>
  The exceptions the modelled functions can raise. A function that can raise returns
  \<open>py_error + 'a\<close>, with \<open>Inl\<close> for the exception.
\<close>

datatype py_error = KeyError | IndexError | ValueError | TypeError | AssertionError

text \<open>
  A NumPy float: a finite value, an infinity or NaN. Finite values are exact reals here
  (rounding is not modelled); the special values follow IEEE 754, as NumPy does.
\<close>

datatype npfloat = Fin real | PosInf | NegInf | NaN

fun np_log :: "npfloat \<Rightarrow> npfloat" where
  "np_log (Fin x) = (if 0 < x then Fin (ln x) else if x = 0 then NegInf else NaN)"
| "np_log PosInf = PosInf"
| "np_log NegInf = NaN"
| "np_log NaN = NaN"

fun np_neg :: "npfloat \<Rightarrow> npfloat" where
  "np_neg (Fin x) = Fin (- x)"
| "np_neg PosInf = NegInf"
| "np_neg NegInf = PosInf"
| "np_neg NaN = NaN"

fun np_add :: "npfloat \<Rightarrow> npfloat \<Rightarrow> npfloat" where
  "np_add (Fin x) (Fin y) = Fin (x + y)"
| "np_add NaN _ = NaN"
| "np_add _ NaN = NaN"
| "np_add PosInf NegInf = NaN"
| "np_add NegInf PosInf = NaN"
| "np_add PosInf _ = PosInf"
| "np_add _ PosInf = PosInf"
| "np_add NegInf _ = NegInf"
| "np_add _ NegInf = NegInf"

text \<open>Division of a float by a positive count, as in the last step of \<open>np.mean\<close>.\<close>

fun np_div_count :: "npfloat \<Rightarrow> nat \<Rightarrow> npfloat" where
  "np_div_count (Fin x) n = Fin (x / real n)"
| "np_div_count v n = v"

definition np_sum :: "npfloat list \<Rightarrow> npfloat" where
  "np_sum xs = foldl np_add (Fin 0) xs"

text \<open>
  \<open>np.mean\<close> of a one-dimensional array. The mean of an empty array is \<open>nan\<close>
  (NumPy warns, it does not raise).
\<close>

definition np_mean :: "npfloat list \<Rightarrow> npfloat" where
  "np_mean xs = (if xs = [] then NaN else np_div_count (np_sum xs) (length xs))"

text \<open>A boolean array read as floats, as \<open>np.mean\<close> does with the result of \<open>np.equal\<close>.\<close>

definition bool_to_float :: "bool \<Rightarrow> npfloat" where
  "bool_to_float b = Fin (if b then 1 else 0)"

section \<open>Two-dimensional arrays\<close>

text \<open>
  A two-dimensional array is its list of rows together with its number of columns, so
  that an array of shape \<open>(0, C)\<close> keeps its \<open>C\<close>. Its shape is
  \<open>(length (rows m), ncols m)\<close>.
\<close>

record 'a matrix =
  ncols :: nat
  rows :: "'a list list"

definition wf_matrix :: "'a matrix \<Rightarrow> bool" where
  "wf_matrix m = list_all (\<lambda>r. length r = ncols m) (rows m)"

definition nrows :: "'a matrix \<Rightarrow> nat" where
  "nrows m = length (rows m)"

text \<open>Sequencing of a fallible function over a list: the first exception wins.\<close>

fun map_err :: "('a \<Rightarrow> py_error + 'b) \<Rightarrow> 'a list \<Rightarrow> py_error + 'b list" where
  "map_err f [] = Inr []"
| "map_err f (x # xs) =
     (case f x of Inl e \<Rightarrow> Inl e
      | Inr y \<Rightarrow> (case map_err f xs of Inl e \<Rightarrow> Inl e | Inr ys \<Rightarrow> Inr (y # ys)))"

text \<open>
  An index into an axis of length \<open>n\<close>: Python counts a negative index from the end and
  raises \<open>IndexError\<close> outside \<open>-n \<le> i < n\<close>.
\<close>

definition norm_index :: "nat \<Rightarrow> int \<Rightarrow> py_error + nat" where
  "norm_index n i =
     (if 0 \<le> i \<and> i < int n then Inr (nat i)
      else if - int n \<le> i \<and> i < 0 then Inr (nat (i + int n))
      else Inl IndexError)"

text \<open>\<open>m[idx]\<close> with a list (or integer array) of row indices: the rows named, in order.\<close>

definition take_rows :: "'a matrix \<Rightarrow> int list \<Rightarrow> py_error + 'a matrix" where
  "take_rows m idx =
     (case map_err (norm_index (nrows m)) idx of
        Inl e \<Rightarrow> Inl e
      | Inr ks \<Rightarrow> Inr \<lparr>ncols = ncols m, rows = map (\<lambda>k. rows m ! k) ks\<rparr>)"

text \<open>\<open>np.ravel\<close>: the entries in row-major order.\<close>

definition ravel :: "'a matrix \<Rightarrow> 'a list" where
  "ravel m = concat (rows m)"

text \<open>
  \<open>np.extract(condition, arr)\<close> is \<open>np.take(ravel(arr), nonzero(ravel(condition))[0])\<close>:
  the entries of the flattened \<open>arr\<close> at the positions where the flattened condition is
  non-zero; a position beyond the end of \<open>arr\<close> raises \<open>IndexError\<close>.
\<close>

definition nonzero :: "int list \<Rightarrow> nat list" where
  "nonzero cs = filter (\<lambda>k. cs ! k \<noteq> 0) [0..<length cs]"

definition np_extract :: "int matrix \<Rightarrow> 'a matrix \<Rightarrow> py_error + 'a list" where
  "np_extract condition arr =
     (let ks = nonzero (ravel condition); flat = ravel arr
      in if list_all (\<lambda>k. k < length flat) ks then Inr (map (\<lambda>k. flat ! k) ks)
         else Inl IndexError)"

text \<open>
  \<open>np.argmax\<close> of one row: the index of the first maximal entry. For floats NumPy
  treats NaN as maximal, so the index of the first NaN is returned when there is one.
\<close>

fun np_less :: "npfloat \<Rightarrow> npfloat \<Rightarrow> bool" where
  "np_less NaN _ = False"
| "np_less _ NaN = True"
| "np_less PosInf _ = False"
| "np_less _ PosInf = True"
| "np_less _ NegInf = False"
| "np_less NegInf _ = True"
| "np_less (Fin x) (Fin y) = (x < y)"

fun argmax_from :: "('a \<Rightarrow> 'a \<Rightarrow> bool) \<Rightarrow> nat \<Rightarrow> 'a \<Rightarrow> nat \<Rightarrow> 'a list \<Rightarrow> nat" where
  "argmax_from lt best_i best k [] = best_i"
| "argmax_from lt best_i best k (x # xs) =
     (if lt best x then argmax_from lt k x (Suc k) xs
      else argmax_from lt best_i best (Suc k) xs)"

definition argmax_row :: "('a \<Rightarrow> 'a \<Rightarrow> bool) \<Rightarrow> 'a list \<Rightarrow> nat" where
  "argmax_row lt r = (case r of [] \<Rightarrow> 0 | x # xs \<Rightarrow> argmax_from lt 0 x 1 xs)"

text \<open>
  \<open>np.argmax(m, 1)\<close>: the argmax of every row. Reducing over an axis of length 0
  raises \<open>ValueError\<close>.
\<close>

definition argmax_axis1 :: "('a \<Rightarrow> 'a \<Rightarrow> bool) \<Rightarrow> 'a matrix \<Rightarrow> py_error + nat list" where
  "argmax_axis1 lt m =
     (if ncols m = 0 then Inl ValueError else Inr (map (argmax_row lt) (rows m)))"

section \<open>The masked evaluator (mrgcn.py)\<close>

definition categorical_crossentropy :: "npfloat matrix \<Rightarrow> int matrix \<Rightarrow> py_error + npfloat" where
  "categorical_crossentropy preds labels =
     (case np_extract labels preds of
        Inl e \<Rightarrow> Inl e
      | Inr xs \<Rightarrow> Inr (np_mean (map (\<lambda>p. np_neg (np_log p)) xs)))"

definition accuracy :: "npfloat matrix \<Rightarrow> int matrix \<Rightarrow> py_error + npfloat" where
  "accuracy preds labels =
     (case argmax_axis1 (<) labels of
        Inl e \<Rightarrow> Inl e
      | Inr ls \<Rightarrow>
          (case argmax_axis1 np_less preds of
             Inl e \<Rightarrow> Inl e
           | Inr ps \<Rightarrow> Inr (np_mean (map (\<lambda>(l, p). bool_to_float (l = p)) (zip ls ps)))))"

text \<open>
  The loop of \<open>evaluate_preds\<close> over \<open>zip(labels, indices)\<close>, with the two result lists
  as accumulators. \<open>preds\<close> is \<open>None\<close> when \<open>run\<close> passes its initial \<open>Y_hat\<close>;
  indexing \<open>None\<close> raises \<open>TypeError\<close>.
\<close>

fun evaluate_loop ::
  "npfloat matrix option \<Rightarrow> (int matrix \<times> int list) list \<Rightarrow> npfloat list \<Rightarrow> npfloat list
     \<Rightarrow> py_error + (npfloat list \<times> npfloat list)" where
  "evaluate_loop preds [] split_loss split_acc = Inr (split_loss, split_acc)"
| "evaluate_loop preds ((y_split, idx_split) # rest) split_loss split_acc =
     (case preds of
        None \<Rightarrow> Inl TypeError
      | Some P \<Rightarrow>
          (case take_rows P idx_split of
             Inl e \<Rightarrow> Inl e
           | Inr p \<Rightarrow>
               (case take_rows y_split idx_split of
                  Inl e \<Rightarrow> Inl e
                | Inr y \<Rightarrow>
                    (case categorical_crossentropy p y of
                       Inl e \<Rightarrow> Inl e
                     | Inr l \<Rightarrow>
                         (case accuracy p y of
                            Inl e \<Rightarrow> Inl e
                          | Inr a \<Rightarrow>
                              evaluate_loop preds rest (split_loss @ [l]) (split_acc @ [a]))))))"

definition evaluate_preds ::
  "npfloat matrix option \<Rightarrow> int matrix list \<Rightarrow> int list list
     \<Rightarrow> py_error + (npfloat list \<times> npfloat list)" where
  "evaluate_preds preds labels indices = evaluate_loop preds (zip labels indices) [] []"

section \<open>The training loop (mrgcn.py)\<close>

text \<open>
  One split of the dataset built by \<open>create_splits\<close>: its label matrix
  (\<open>dataset[s]['Y']\<close>) and its node indices (\<open>dataset[s]['X_idx']\<close>).
\<close>

record split =
  split_Y :: "int matrix"
  split_X_idx :: "int list"

record dataset =
  train :: split
  val :: split
  test :: split

text \<open>What \<open>run\<close> does that can be observed: calls into the Keras model and printed lines.\<close>

datatype event =
    Fit
  | Predict
  | PrintEpoch int npfloat npfloat npfloat npfloat
  | PrintTime int
  | PrintTest npfloat npfloat

text \<open>
  The state of \<open>run\<close> during training: the Keras model (mutated by \<open>fit\<close>), the
  variable \<open>Y_hat\<close> and the events so far.
\<close>

record 'm run_state =
  model :: 'm
  Y_hat :: "npfloat matrix option"
  out :: "event list"

text \<open>
  The body of \<open>for epoch in range(1, nepoch+1)\<close>, over the list of epochs left. The model's
  \<open>fit\<close> and \<open>predict\<close> (Keras, outside this repository) are parameters; wall-clock
  times are left out of the printed lines. An exception ends the run; the events before
  it are returned with it.
\<close>

fun epoch_loop ::
  "('m \<Rightarrow> 'm) \<Rightarrow> ('m \<Rightarrow> npfloat matrix) \<Rightarrow> dataset \<Rightarrow> int list \<Rightarrow> 'm run_state
     \<Rightarrow> (py_error \<times> event list) + 'm run_state" where
  "epoch_loop fit predict ds [] st = Inr st"
| "epoch_loop fit predict ds (epoch # rest) st =
     (let m = fit (model st) in
      if epoch mod 1 = 0 then
        (let P = predict m in
         case evaluate_preds (Some P)
                [split_Y (train ds), split_Y (val ds)]
                [split_X_idx (train ds), split_X_idx (val ds)] of
           Inl e \<Rightarrow> Inl (e, out st @ [Fit, Predict])
         | Inr (train_val_loss, train_val_acc) \<Rightarrow>
             epoch_loop fit predict ds rest
               \<lparr>model = m, Y_hat = Some P,
                out = out st @ [Fit, Predict,
                  PrintEpoch epoch (train_val_loss ! 0) (train_val_acc ! 0)
                                   (train_val_loss ! 1) (train_val_acc ! 1)]\<rparr>)
      else
        epoch_loop fit predict ds rest
          \<lparr>model = m, Y_hat = Y_hat st, out = out st @ [Fit, PrintTime epoch]\<rparr>)"

text \<open>
  \<open>run\<close> from \<open>Y_hat = None\<close> on: the training loop, then the test evaluation on
  \<open>Y_hat\<close>. What comes before (reading the graph, \<open>build_model\<close>, \<open>create_splits\<close>) is
  given by the arguments: the compiled model, the dataset and \<open>config['model']['epoch']\<close>.
\<close>

definition run ::
  "('m \<Rightarrow> 'm) \<Rightarrow> ('m \<Rightarrow> npfloat matrix) \<Rightarrow> dataset \<Rightarrow> int \<Rightarrow> 'm
     \<Rightarrow> (py_error \<times> event list) + event list" where
  "run fit predict ds nepoch m0 =
     (case epoch_loop fit predict ds [1..nepoch] \<lparr>model = m0, Y_hat = None, out = []\<rparr> of
        Inl err \<Rightarrow> Inl err
      | Inr st \<Rightarrow>
          (case evaluate_preds (Y_hat st) [split_Y (test ds)] [split_X_idx (test ds)] of
             Inl e \<Rightarrow> Inl (e, out st)
           | Inr (test_loss, test_acc) \<Rightarrow>
               Inr (out st @ [PrintTest (test_loss ! 0) (test_acc ! 0)])))"

section \<open>The dataset builder (tasks/node\_classification.py)\<close>

text \<open>
  A Python dict is an association list in insertion order; assigning to a key that is
  already there replaces its value in place. \<open>{label: i for i, label in enumerate(xs)}\<close>:
\<close>

definition enumerate_map :: "'k list \<Rightarrow> ('k \<times> nat) list" where
  "enumerate_map xs = foldl (\<lambda>d (i, label). AList.update label i d) [] (enumerate 0 xs)"

definition dict_get :: "('k \<times> 'v) list \<Rightarrow> 'k \<Rightarrow> py_error + 'v" where
  "dict_get d k = (case map_of d k of None \<Rightarrow> Inl KeyError | Some v \<Rightarrow> Inr v)"

text \<open>
  \<open>sp.csr_matrix((data, (row, col)), shape=(n, m))\<close>, seen as the dense array it stands
  for: an index outside the shape raises \<open>ValueError\<close>, and the values given for one
  position are summed. (The entries are \<open>int32\<close>; they are integers here, a sum of ones
  staying below \<open>2^31\<close> for any list that fits in memory.)
\<close>

definition csr_matrix :: "int list \<Rightarrow> (nat \<times> nat) list \<Rightarrow> nat \<times> nat \<Rightarrow> py_error + int matrix" where
  "csr_matrix data coords shape =
     (case shape of (n, m) \<Rightarrow>
        if list_all (\<lambda>(r, c). r < n \<and> c < m) coords
        then Inr \<lparr>ncols = m,
                  rows = map (\<lambda>r. map (\<lambda>c. sum_list (map fst (filter (\<lambda>(v, rc). rc = (r, c))
                                                       (zip data coords)))) [0..<m]) [0..<n]\<rparr>
        else Inl ValueError)"

text \<open>\<open>sp.csr_matrix((n, m))\<close>: the \<open>n\<close> by \<open>m\<close> matrix with no stored entry.\<close>

definition csr_empty :: "nat \<times> nat \<Rightarrow> npfloat matrix" where
  "csr_empty shape = (case shape of (n, m) \<Rightarrow> \<lparr>ncols = m, rows = replicate n (replicate m (Fin 0))\<rparr>)"

text \<open>
  \<open>build_dataset\<close>. \<open>atoms\<close> is what \<open>knowledge_graph.atoms()\<close> yields. The set of
  classes is iterated in an order that Python does not specify: \<open>set_order\<close> stands for
  it, applied to the distinct classes. Unpacking \<open>zip(*target_labels)\<close> into two names
  raises \<open>ValueError\<close> when there is no target.
\<close>

definition build_dataset ::
  "('c list \<Rightarrow> 'c list) \<Rightarrow> 'n list \<Rightarrow> ('n \<times> 'r \<times> 'c) list
     \<Rightarrow> py_error + (npfloat matrix \<times> int matrix \<times> nat list)" where
  "build_dataset set_order atoms target_triples =
     (let classes = set_order (remdups (map (\<lambda>(x, r, y). y) target_triples));
          nodes_map = enumerate_map atoms;
          classes_map = enumerate_map classes
      in case map_err (\<lambda>(x, r, y).
                 case dict_get nodes_map x of
                   Inl e \<Rightarrow> Inl e
                 | Inr i \<Rightarrow> (case dict_get classes_map y of Inl e \<Rightarrow> Inl e | Inr j \<Rightarrow> Inr (i, j)))
               target_triples of
           Inl e \<Rightarrow> Inl e
         | Inr target_labels \<Rightarrow>
             if target_labels = [] then Inl ValueError
             else
               (let X_node_idx = map fst target_labels;
                    Y_class_idx = map snd target_labels
                in case csr_matrix (replicate (length target_labels) 1)
                          (zip X_node_idx Y_class_idx)
                          (length nodes_map, length classes_map) of
                     Inl e \<Rightarrow> Inl e
                   | Inr Y \<Rightarrow>
                       Inr (csr_empty (length nodes_map, length nodes_map), Y, X_node_idx)))"

section \<open>The model builder (tasks/node\_classification.py)\<close>

record layer_config =
  hidden_nodes :: nat
  num_bases :: int
  featureless :: bool
  activation :: string
  dropout :: real
  l2norm :: real

record model_config =
  model_layers :: "layer_config list"
  model_loss :: string
  model_learning_rate :: real

datatype regularizer = l2 real

text \<open>
  A layer as its constructor call. A keyword argument that the call does not pass is
  \<open>None\<close>.
\<close>

datatype keras_layer =
    GraphConvolution (gc_units: nat) (gc_support: nat) (gc_num_bases: int)
      (gc_featureless: "bool option") (gc_activation: string)
      (gc_W_regularizer: "regularizer option")
  | Dropout real

record keras_model =
  input_width :: nat
  adjacency_inputs :: nat
  net :: "keras_layer list"
  compiled_loss :: string
  adam_lr :: real

definition build_model :: "'a matrix \<Rightarrow> 'b matrix \<Rightarrow> 'c list \<Rightarrow> model_config \<Rightarrow> py_error + keras_model" where
  "build_model X Y A config =
     (let layers = model_layers config in
      if \<not> 2 \<le> length layers then Inl AssertionError
      else
        (let support = length A;
             H0 = [GraphConvolution (hidden_nodes (layers ! 0)) support
                     (num_bases (layers ! 0)) (Some (featureless (layers ! 0)))
                     (activation (layers ! 0)) (Some (l2 (l2norm (layers ! 0)))),
                   Dropout (dropout (layers ! 0))];
             H = concat (map (\<lambda>(i, layer).
                     [GraphConvolution (hidden_nodes (layers ! i)) support
                        (num_bases (layers ! i)) (Some (featureless (layers ! i)))
                        (activation (layers ! i)) (Some (l2 (l2norm (layers ! i)))),
                      Dropout (dropout (layers ! i))])
                   (enumerate 1 (butlast (tl layers))));
             Y_out = GraphConvolution (ncols Y) support (num_bases (last layers)) None
                       (activation (last layers)) None
         in Inr \<lparr>input_width = ncols X, adjacency_inputs = support,
                  net = H0 @ H @ [Y_out],
                  compiled_loss = model_loss config,
                  adam_lr = model_learning_rate config\<rparr>))"

section \<open>Notions used to state the properties\<close>

subsection \<open>Row indices and slices\<close>

text \<open>The row that a valid Python index names in an axis of length \<open>n\<close>.\<close>

definition row_of :: "nat \<Rightarrow> int \<Rightarrow> nat" where
  "row_of n i = (if i < 0 then nat (i + int n) else nat i)"

definition valid_index :: "nat \<Rightarrow> int \<Rightarrow> bool" where
  "valid_index n i = (- int n \<le> i \<and> i < int n)"

text \<open>Slicing a matrix to the rows of an index subset by hand.\<close>

definition manual_slice :: "'a matrix \<Rightarrow> int list \<Rightarrow> 'a matrix" where
  "manual_slice m idx = \<lparr>ncols = ncols m, rows = map (\<lambda>i. rows m ! row_of (nrows m) i) idx\<rparr>"

text \<open>
  A label matrix and an index subset fit a prediction matrix \<open>P\<close>: the label matrix is
  rectangular with the shape of \<open>P\<close>, and every index names a row.
\<close>

definition valid_split :: "npfloat matrix \<Rightarrow> int matrix \<Rightarrow> int list \<Rightarrow> bool" where
  "valid_split P L idx =
     (wf_matrix L \<and> nrows L = nrows P \<and> ncols L = ncols P \<and> list_all (valid_index (nrows P)) idx)"

text \<open>The entries of a label matrix are 0 or 1.\<close>

definition binary_labels :: "int matrix \<Rightarrow> bool" where
  "binary_labels L = list_all (list_all (\<lambda>v. v = 0 \<or> v = 1)) (rows L)"

subsection \<open>What the evaluator computes for one pair\<close>

text \<open>The entries of a prediction row at the columns where the label row is non-zero.\<close>

definition picked :: "int list \<Rightarrow> 'a list \<Rightarrow> 'a list" where
  "picked yr pr = map (\<lambda>c. pr ! c) (nonzero yr)"

definition loss_of :: "npfloat matrix \<Rightarrow> int matrix \<Rightarrow> int list \<Rightarrow> npfloat" where
  "loss_of P L idx =
     np_mean (map (\<lambda>p. np_neg (np_log p))
       (concat (map (\<lambda>i. picked (rows L ! row_of (nrows P) i) (rows P ! row_of (nrows P) i)) idx)))"

definition acc_of :: "npfloat matrix \<Rightarrow> int matrix \<Rightarrow> int list \<Rightarrow> npfloat" where
  "acc_of P L idx =
     np_mean (map (\<lambda>i. bool_to_float (argmax_row (<) (rows L ! row_of (nrows P) i)
                                    = argmax_row np_less (rows P ! row_of (nrows P) i))) idx)"

subsection \<open>The masked loss and accuracy, as the specification words them\<close>

text \<open>
  The positions \<open>(i, c)\<close> with row \<open>i\<close> in the subset and \<open>label[i, c] = 1\<close>, and the
  mean of \<open>-log(P[i, c])\<close> over them.
\<close>

definition masked_positions :: "int matrix \<Rightarrow> int list \<Rightarrow> (nat \<times> nat) list" where
  "masked_positions L idx =
     concat (map (\<lambda>i. map (\<lambda>c. (row_of (nrows L) i, c))
                         (filter (\<lambda>c. rows L ! row_of (nrows L) i ! c = 1) [0..<ncols L])) idx)"

definition masked_loss :: "npfloat matrix \<Rightarrow> int matrix \<Rightarrow> int list \<Rightarrow> npfloat" where
  "masked_loss P L idx =
     np_mean (map (\<lambda>(i, c). np_neg (np_log (rows P ! i ! c))) (masked_positions L idx))"

text \<open>
  The fraction of the rows of the subset whose prediction argmax equals the label
  argmax.
\<close>

definition masked_accuracy :: "npfloat matrix \<Rightarrow> int matrix \<Rightarrow> int list \<Rightarrow> npfloat" where
  "masked_accuracy P L idx =
     Fin (real (length (filter (\<lambda>i. argmax_row np_less (rows P ! row_of (nrows P) i)
                                   = argmax_row (<) (rows L ! row_of (nrows L) i)) idx))
          / real (length idx))"

subsection \<open>The events of a run\<close>

text \<open>
  A prediction matrix that all three splits of the dataset fit: rectangular, with at
  least one class column.
\<close>

definition good_preds :: "dataset \<Rightarrow> npfloat matrix \<Rightarrow> bool" where
  "good_preds ds P =
     (wf_matrix P \<and> 0 < ncols P
      \<and> valid_split P (split_Y (train ds)) (split_X_idx (train ds))
      \<and> valid_split P (split_Y (val ds)) (split_X_idx (val ds))
      \<and> valid_split P (split_Y (test ds)) (split_X_idx (test ds)))"

text \<open>The events of one epoch whose forward pass gives \<open>P\<close>, and of a list of epochs.\<close>

definition epoch_events :: "dataset \<Rightarrow> npfloat matrix \<Rightarrow> int \<Rightarrow> event list" where
  "epoch_events ds P epoch =
     [Fit, Predict,
      PrintEpoch epoch
        (loss_of P (split_Y (train ds)) (split_X_idx (train ds)))
        (acc_of P (split_Y (train ds)) (split_X_idx (train ds)))
        (loss_of P (split_Y (val ds)) (split_X_idx (val ds)))
        (acc_of P (split_Y (val ds)) (split_X_idx (val ds)))]"

fun training_events ::
  "('m \<Rightarrow> 'm) \<Rightarrow> ('m \<Rightarrow> npfloat matrix) \<Rightarrow> dataset \<Rightarrow> 'm \<Rightarrow> int list \<Rightarrow> event list" where
  "training_events fit predict ds m [] = []"
| "training_events fit predict ds m (epoch # rest) =
     epoch_events ds (predict (fit m)) epoch @ training_events fit predict ds (fit m) rest"

text \<open>The number of forward passes (calls of \<open>predict\<close>) among the events.\<close>

definition forward_passes :: "event list \<Rightarrow> nat" where
  "forward_passes evs = length (filter (\<lambda>e. e = Predict) evs)"

text \<open>The time-only line of the \<open>else\<close> branch, and the epochs of the full progress lines.\<close>

fun is_time_line :: "event \<Rightarrow> bool" where
  "is_time_line (PrintTime e) = True"
| "is_time_line _ = False"

fun progress_epoch :: "event \<Rightarrow> int list" where
  "progress_epoch (PrintEpoch e l a l' a') = [e]"
| "progress_epoch _ = []"

definition progress_epochs :: "event list \<Rightarrow> int list" where
  "progress_epochs evs = concat (map progress_epoch evs)"

text \<open>The events of a run, whether it ended with an exception or not.\<close>

fun events_of :: "(py_error \<times> event list) + event list \<Rightarrow> event list" where
  "events_of (Inl (e, evs)) = evs"
| "events_of (Inr evs) = evs"

subsection \<open>Inputs of the dataset builder\<close>

text \<open>
  An iteration order of Python sets lists every element of the set once.
\<close>

definition iteration_order :: "('c list \<Rightarrow> 'c list) \<Rightarrow> bool" where
  "iteration_order set_order =
     (\<forall>cs. distinct cs \<longrightarrow> distinct (set_order cs) \<and> set (set_order cs) = set cs)"

text \<open>The classes in the order in which \<open>classes_map\<close> numbers them.\<close>

definition target_classes :: "('c list \<Rightarrow> 'c list) \<Rightarrow> ('n \<times> 'r \<times> 'c) list \<Rightarrow> 'c list" where
  "target_classes set_order target_triples =
     set_order (remdups (map (\<lambda>(x, r, y). y) target_triples))"

text \<open>
  A consistent input: the graph yields every node once, there is at least one target
  statement, and the node of every target statement is a node of the graph.
\<close>

definition consistent_input ::
  "('c list \<Rightarrow> 'c list) \<Rightarrow> 'n list \<Rightarrow> ('n \<times> 'r \<times> 'c) list \<Rightarrow> bool" where
  "consistent_input set_order atoms target_triples =
     (iteration_order set_order \<and> distinct atoms \<and> target_triples \<noteq> []
      \<and> list_all (\<lambda>(x, r, y). x \<in> set atoms) target_triples)"

text \<open>The number of target statements with node \<open>x\<close> and class \<open>y\<close>.\<close>

definition statements_of :: "('n \<times> 'r \<times> 'c) list \<Rightarrow> 'n \<Rightarrow> 'c \<Rightarrow> nat" where
  "statements_of target_triples x y =
     length (filter (\<lambda>(x', r, y'). x' = x \<and> y' = y) target_triples)"

definition one_hot :: "nat \<Rightarrow> nat \<Rightarrow> int list" where
  "one_hot m j = (replicate m 0)[j := 1]"

definition label_matrix :: "'n list \<Rightarrow> 'c list \<Rightarrow> ('n \<times> 'r \<times> 'c) list \<Rightarrow> int matrix" where
  "label_matrix atoms classes target_triples =
     \<lparr>ncols = length classes,
      rows = map (\<lambda>i. map (\<lambda>j. int (statements_of target_triples (atoms ! i) (classes ! j)))
                         [0..<length classes]) [0..<length atoms]\<rparr>"

definition shape :: "'a matrix \<Rightarrow> nat \<times> nat" where
  "shape m = (nrows m, ncols m)"

definition identity_matrix :: "nat \<Rightarrow> npfloat matrix" where
  "identity_matrix n =
     \<lparr>ncols = n, rows = map (\<lambda>i. map (\<lambda>j. if i = j then Fin 1 else Fin 0) [0..<n]) [0..<n]\<rparr>"

subsection \<open>The layers of a built model\<close>

definition graph_convolutions :: "keras_model \<Rightarrow> keras_layer list" where
  "graph_convolutions m = filter is_GraphConvolution (net m)"

subsection \<open>Example inputs\<close>

text \<open>
  Three nodes and two classes: a prediction matrix, a label matrix, a dataset with one
  node per split, a small graph with two target statements, and a two-layer
  configuration.
\<close>

definition P_ex :: "npfloat matrix" where
  "P_ex = \<lparr>ncols = 2, rows = [[Fin (1/2), Fin (1/2)], [Fin (1/4), Fin (3/4)], [Fin 1, Fin 0]]\<rparr>"

definition L_ex :: "int matrix" where
  "L_ex = \<lparr>ncols = 2, rows = [[1, 0], [0, 1], [1, 0]]\<rparr>"

definition ds_ex :: dataset where
  "ds_ex = \<lparr>train = \<lparr>split_Y = L_ex, split_X_idx = [0]\<rparr>,
            val = \<lparr>split_Y = L_ex, split_X_idx = [1]\<rparr>,
            test = \<lparr>split_Y = L_ex, split_X_idx = [2]\<rparr>\<rparr>"

definition atoms_ex :: "string list" where
  "atoms_ex = [''alice'', ''bob'', ''carol'']"

definition targets_ex :: "(string \<times> string \<times> string) list" where
  "targets_ex = [(''alice'', ''type'', ''person''), (''carol'', ''type'', ''robot'')]"

definition layers_ex :: "layer_config list" where
  "layers_ex =
     [\<lparr>hidden_nodes = 16, num_bases = -1, featureless = True, activation = ''relu'',
       dropout = 1/2, l2norm = 5/10000\<rparr>,
      \<lparr>hidden_nodes = 4, num_bases = -1, featureless = False, activation = ''softmax'',
       dropout = 0, l2norm = 5/10000\<rparr>]"

definition config_ex :: model_config where
  "config_ex = \<lparr>model_layers = layers_ex, model_loss = ''categorical_crossentropy'',
                model_learning_rate = 1/100\<rparr>"

section \<open>Properties\<close>

subsection \<open>Indexing and extraction\<close>

lemma norm_index_valid: "valid_index n i \<Longrightarrow> norm_index n i = Inr (row_of n i)"
  by (auto simp: valid_index_def norm_index_def row_of_def)

lemma row_of_less: "valid_index n i \<Longrightarrow> row_of n i < n"
  by (auto simp: valid_index_def row_of_def)

lemma map_err_Inr: "(\<And>x. x \<in> set xs \<Longrightarrow> f x = Inr (g x)) \<Longrightarrow> map_err f xs = Inr (map g xs)"
  by (induction xs) auto

lemma take_rows_valid:
  "list_all (valid_index (nrows m)) idx \<Longrightarrow>
   take_rows m idx = Inr \<lparr>ncols = ncols m, rows = map (\<lambda>i. rows m ! row_of (nrows m) i) idx\<rparr>"
  by (simp add: take_rows_def map_err_Inr[where g = "row_of (nrows m)"] norm_index_valid list_all_iff comp_def)

lemma zip_as_nth: "length cs = length fs \<Longrightarrow> zip cs fs = map (\<lambda>k. (cs ! k, fs ! k)) [0..<length cs]"
  by (rule nth_equalityI) auto

lemma take_nonzero:
  assumes "length cs = length fs"
  shows "map (\<lambda>k. fs ! k) (nonzero cs) = map snd (filter (\<lambda>(c, f). c \<noteq> 0) (zip cs fs))"
  by (simp add: zip_as_nth[OF assms] filter_map comp_def nonzero_def)

lemma zip_concat:
  "list_all2 (\<lambda>a b. length a = length b) ys ps \<Longrightarrow> zip (concat ys) (concat ps) = concat (map (\<lambda>(a, b). zip a b) (zip ys ps))"
  by (induction rule: list_all2_induct) auto

lemma length_concat_eq:
  "list_all2 (\<lambda>a b. length a = length b) ys ps \<Longrightarrow> length (concat ys) = length (concat ps)"
  by (induction rule: list_all2_induct) auto

lemma nonzero_bound: "k \<in> set (nonzero cs) \<Longrightarrow> k < length cs"
  by (auto simp: nonzero_def)

lemma np_extract_rows:
  assumes "list_all2 (\<lambda>a b. length a = length b) (rows y) (rows p)"
  shows "np_extract y p = Inr (concat (map (\<lambda>(yr, pr). picked yr pr) (zip (rows y) (rows p))))"
proof -
  have len: "length (ravel y) = length (ravel p)"
    using assms by (simp add: ravel_def length_concat_eq)
  have inr: "list_all (\<lambda>k. k < length (ravel p)) (nonzero (ravel y))"
    using len by (auto simp: list_all_iff dest: nonzero_bound)
  have "map (\<lambda>k. ravel p ! k) (nonzero (ravel y))
        = map snd (filter (\<lambda>(c, f). c \<noteq> 0) (zip (ravel y) (ravel p)))"
    by (rule take_nonzero[OF len])
  also have "\<dots> = concat (map (\<lambda>(yr, pr). map snd (filter (\<lambda>(c, f). c \<noteq> 0) (zip yr pr))) (zip (rows y) (rows p)))"
    by (simp add: ravel_def zip_concat[OF assms] filter_concat map_concat comp_def case_prod_unfold)
  also have "\<dots> = concat (map (\<lambda>(yr, pr). picked yr pr) (zip (rows y) (rows p)))"
  proof -
    have "\<And>yr pr. (yr, pr) \<in> set (zip (rows y) (rows p)) \<Longrightarrow>
        map snd (filter (\<lambda>(c, f). c \<noteq> 0) (zip yr pr)) = picked yr pr"
      using assms by (auto simp: picked_def take_nonzero list_all2_iff)
    then show ?thesis
      by (intro arg_cong[where f = concat] map_cong) auto
  qed
  finally show ?thesis
    using inr by (simp add: np_extract_def Let_def)
qed

subsection \<open>The evaluator on valid splits\<close>

lemma wf_row: "wf_matrix m \<Longrightarrow> k < nrows m \<Longrightarrow> length (rows m ! k) = ncols m"
  by (simp add: wf_matrix_def nrows_def list_all_length)

lemma slice_crossentropy:
  assumes "wf_matrix P" "valid_split P L idx"
  shows "categorical_crossentropy (manual_slice P idx) (manual_slice L idx) = Inr (loss_of P L idx)"
proof -
  have same: "list_all2 (\<lambda>a b. length a = length b) (rows (manual_slice L idx)) (rows (manual_slice P idx))"
    using assms
    by (auto simp: manual_slice_def valid_split_def list_all2_conv_all_nth list_all_length wf_row row_of_less)
  have "zip (rows (manual_slice L idx)) (rows (manual_slice P idx))
        = map (\<lambda>i. (rows L ! row_of (nrows P) i, rows P ! row_of (nrows P) i)) idx"
    using assms by (simp add: manual_slice_def valid_split_def zip_map_map zip_same_conv_map)
  then show ?thesis
    by (simp add: categorical_crossentropy_def np_extract_rows[OF same] loss_of_def comp_def)
qed

lemma slice_accuracy:
  assumes "0 < ncols P" "valid_split P L idx"
  shows "accuracy (manual_slice P idx) (manual_slice L idx) = Inr (acc_of P L idx)"
proof -
  have "zip (map (argmax_row (<)) (rows (manual_slice L idx))) (map (argmax_row np_less) (rows (manual_slice P idx)))
        = map (\<lambda>i. (argmax_row (<) (rows L ! row_of (nrows P) i), argmax_row np_less (rows P ! row_of (nrows P) i))) idx"
    using assms by (simp add: manual_slice_def valid_split_def zip_map_map zip_same_conv_map)
  then show ?thesis
    using assms by (simp add: accuracy_def argmax_axis1_def acc_of_def comp_def manual_slice_def valid_split_def)
qed

lemma take_rows_slice: "list_all (valid_index (nrows m)) idx \<Longrightarrow> take_rows m idx = Inr (manual_slice m idx)"
  by (simp add: take_rows_valid manual_slice_def)

lemma evaluate_loop_valid:
  assumes "wf_matrix P" "0 < ncols P"
  shows "list_all (\<lambda>(L, idx). valid_split P L idx) pairs \<Longrightarrow>
     evaluate_loop (Some P) pairs ls as
       = Inr (ls @ map (\<lambda>(L, idx). loss_of P L idx) pairs, as @ map (\<lambda>(L, idx). acc_of P L idx) pairs)"
proof (induction pairs arbitrary: ls as)
  case Nil
  then show ?case by simp
next
  case (Cons pr pairs)
  obtain L idx where pr: "pr = (L, idx)" by (cases pr)
  from Cons.prems pr have v: "valid_split P L idx" and rest: "list_all (\<lambda>(L, idx). valid_split P L idx) pairs"
    by simp_all
  have tp: "take_rows P idx = Inr (manual_slice P idx)"
    using v by (simp add: take_rows_slice valid_split_def)
  have tl: "take_rows L idx = Inr (manual_slice L idx)"
    using v by (simp add: take_rows_slice valid_split_def)
  show ?case
    by (simp add: pr tp tl slice_crossentropy[OF assms(1) v] slice_accuracy[OF assms(2) v] Cons.IH[OF rest])
qed

lemma evaluate_preds_valid:
  assumes "wf_matrix P" "0 < ncols P" "list_all (\<lambda>(L, idx). valid_split P L idx) (zip labels indices)"
  shows "evaluate_preds (Some P) labels indices
       = Inr (map (\<lambda>(L, idx). loss_of P L idx) (zip labels indices), map (\<lambda>(L, idx). acc_of P L idx) (zip labels indices))"
  by (simp add: evaluate_preds_def evaluate_loop_valid[OF assms])

lemma picked_binary:
  assumes "list_all (\<lambda>v. v = 0 \<or> v = 1) yr"
  shows "picked yr pr = map (\<lambda>c. pr ! c) (filter (\<lambda>c. yr ! c = 1) [0..<length yr])"
proof -
  have "filter (\<lambda>c. yr ! c \<noteq> 0) [0..<length yr] = filter (\<lambda>c. yr ! c = 1) [0..<length yr]"
    using assms by (intro filter_cong) (auto simp: list_all_length)
  then show ?thesis by (simp add: picked_def nonzero_def)
qed

lemma loss_of_masked:
  assumes "valid_split P L idx" "binary_labels L"
  shows "loss_of P L idx = masked_loss P L idx"
proof -
  have row: "\<And>i. i \<in> set idx \<Longrightarrow>
      picked (rows L ! row_of (nrows P) i) (rows P ! row_of (nrows P) i)
      = map (\<lambda>c. rows P ! row_of (nrows P) i ! c)
          (filter (\<lambda>c. rows L ! row_of (nrows P) i ! c = 1) [0..<ncols L])"
  proof -
    fix i assume "i \<in> set idx"
    with assms(1) have k: "row_of (nrows P) i < nrows L"
      by (auto simp: valid_split_def list_all_iff row_of_less)
    with assms(1) have len: "length (rows L ! row_of (nrows P) i) = ncols L"
      by (simp add: valid_split_def wf_row)
    from k assms(2) have "list_all (\<lambda>v. v = 0 \<or> v = 1) (rows L ! row_of (nrows P) i)"
      by (simp add: binary_labels_def nrows_def list_all_length)
    from picked_binary[OF this] len
    show "picked (rows L ! row_of (nrows P) i) (rows P ! row_of (nrows P) i)
      = map (\<lambda>c. rows P ! row_of (nrows P) i ! c)
          (filter (\<lambda>c. rows L ! row_of (nrows P) i ! c = 1) [0..<ncols L])"
      by simp
  qed
  have "concat (map (\<lambda>i. picked (rows L ! row_of (nrows P) i) (rows P ! row_of (nrows P) i)) idx)
        = map (\<lambda>(i, c). rows P ! i ! c) (masked_positions L idx)"
    using assms(1) row
    by (simp add: masked_positions_def valid_split_def map_concat comp_def cong: map_cong)
  then show ?thesis
    by (simp add: loss_of_def masked_loss_def comp_def case_prod_unfold)
qed

lemma sum_bools: "foldl np_add (Fin a) (map bool_to_float bs) = Fin (a + real (length (filter (\<lambda>b. b) bs)))"
  by (induction bs arbitrary: a) (auto simp: bool_to_float_def)

lemma mean_bools: "bs \<noteq> [] \<Longrightarrow> np_mean (map bool_to_float bs) = Fin (real (length (filter (\<lambda>b. b) bs)) / real (length bs))"
  by (simp add: np_mean_def np_sum_def sum_bools)

lemma acc_of_masked:
  assumes "valid_split P L idx" "idx \<noteq> []"
  shows "acc_of P L idx = masked_accuracy P L idx"
proof -
  let ?hit = "\<lambda>i. argmax_row (<) (rows L ! row_of (nrows P) i)
                  = argmax_row np_less (rows P ! row_of (nrows P) i)"
  have "acc_of P L idx = np_mean (map bool_to_float (map ?hit idx))"
    by (simp add: acc_of_def comp_def)
  also have "\<dots> = Fin (real (length (filter (\<lambda>b. b) (map ?hit idx))) / real (length (map ?hit idx)))"
    using assms(2) by (intro mean_bools) simp
  also have "\<dots> = Fin (real (length (filter ?hit idx)) / real (length idx))"
    by (simp add: filter_map comp_def)
  also have "\<dots> = masked_accuracy P L idx"
    using assms(1) by (simp add: masked_accuracy_def valid_split_def eq_commute)
  finally show ?thesis .
qed

lemmas ex_defs = P_ex_def L_ex_def ds_ex_def wf_matrix_def valid_split_def valid_index_def nrows_def
  binary_labels_def good_preds_def

lemma ex_good: "good_preds ds_ex P_ex"
  by (simp add: ex_defs)

lemmas eval_defs = evaluate_preds_def take_rows_def nrows_def categorical_crossentropy_def np_extract_def
  ravel_def nonzero_def accuracy_def argmax_axis1_def np_mean_def norm_index_def np_sum_def argmax_row_def
  bool_to_float_def

lemma ex_eval: "evaluate_preds (Some P_ex) [L_ex, L_ex] [[0, 1], [-1]] = Inr ([Fin ((ln 2 + ln (4 / 3)) / 2), Fin 0], [Fin 1, Fin 1])"
  apply (simp add: eval_defs P_ex_def L_ex_def upt_rec ln_div)
  done

subsection \<open>The masked loss\<close>

text \<open>
  C1. For a rectangular prediction matrix \<open>P\<close> with at least one class column, label
  matrices of the shape of \<open>P\<close> with entries 0 and 1, and index subsets that name rows of
  \<open>P\<close>, \<open>evaluate_preds\<close> returns, and the loss of every (label, subset) pair is the
  mean of \<open>-log(P[i, c])\<close> over exactly the positions \<open>(i, c)\<close> with row \<open>i\<close> in the subset
  and \<open>label[i, c] = 1\<close>. It is the value one gets by slicing \<open>P\<close> and the label matrix to
  the rows of the subset and applying the unmasked cross-entropy.
\<close>

theorem evaluate_preds_masked_loss:
  assumes "wf_matrix P" and "0 < ncols P"
    and "list_all (\<lambda>(L, idx). valid_split P L idx \<and> binary_labels L) (zip labels indices)"
  shows "\<exists>losses accs. evaluate_preds (Some P) labels indices = Inr (losses, accs)
           \<and> length losses = min (length labels) (length indices)
           \<and> (\<forall>k < length losses.
                 losses ! k = masked_loss P (labels ! k) (indices ! k)
               \<and> categorical_crossentropy (manual_slice P (indices ! k))
                     (manual_slice (labels ! k) (indices ! k)) = Inr (losses ! k))"
proof -
  from assms(3) have valid: "list_all (\<lambda>(L, idx). valid_split P L idx) (zip labels indices)"
    by (auto simp: list_all_iff)
  let ?losses = "map (\<lambda>(L, idx). loss_of P L idx) (zip labels indices)"
  let ?accs = "map (\<lambda>(L, idx). acc_of P L idx) (zip labels indices)"
  have run: "evaluate_preds (Some P) labels indices = Inr (?losses, ?accs)"
    by (rule evaluate_preds_valid[OF assms(1,2) valid])
  have each: "losses_k = masked_loss P (labels ! k) (indices ! k)
      \<and> categorical_crossentropy (manual_slice P (indices ! k))
            (manual_slice (labels ! k) (indices ! k)) = Inr losses_k"
    if k: "k < length ?losses" and lk: "losses_k = ?losses ! k" for k losses_k
  proof -
    from k have kk: "k < length labels" "k < length indices" by simp_all
    then have mem: "(labels ! k, indices ! k) \<in> set (zip labels indices)"
      by (auto simp: set_zip)
    with assms(3) have v: "valid_split P (labels ! k) (indices ! k)" and b: "binary_labels (labels ! k)"
      by (auto simp: list_all_iff)
    from kk lk have "losses_k = loss_of P (labels ! k) (indices ! k)" by simp
    then show ?thesis
      by (simp add: loss_of_masked[OF v b] slice_crossentropy[OF assms(1) v])
  qed
  show ?thesis
    apply (rule exI[of _ ?losses], rule exI[of _ ?accs])
    using run each by simp
qed

theorem evaluate_preds_masked_loss_witness:
  "wf_matrix P_ex \<and> 0 < ncols P_ex
   \<and> list_all (\<lambda>(L, idx). valid_split P_ex L idx \<and> binary_labels L) (zip [L_ex, L_ex] [[0, 1], [-1]])
   \<and> (\<exists>losses accs. evaluate_preds (Some P_ex) [L_ex, L_ex] [[0, 1], [-1]] = Inr (losses, accs)
           \<and> length losses = min (length [L_ex, L_ex]) (length [[0, 1], [-1::int]])
           \<and> (\<forall>k < length losses.
                 losses ! k = masked_loss P_ex ([L_ex, L_ex] ! k) ([[0, 1], [-1]] ! k)
               \<and> categorical_crossentropy (manual_slice P_ex ([[0, 1], [-1]] ! k))
                     (manual_slice ([L_ex, L_ex] ! k) ([[0, 1], [-1]] ! k)) = Inr (losses ! k)))"
proof -
  have h1: "wf_matrix P_ex" by (simp add: ex_defs)
  have h2: "0 < ncols P_ex" by (simp add: ex_defs)
  have h3: "list_all (\<lambda>(L, idx). valid_split P_ex L idx \<and> binary_labels L) (zip [L_ex, L_ex] [[0, 1], [-1]])"
    by (simp add: ex_defs)
  from evaluate_preds_masked_loss[OF h1 h2 h3] h1 h2 h3 show ?thesis by blast
qed

subsection \<open>The masked accuracy\<close>

text \<open>
  C2. Under the same conditions, with non-empty subsets, the accuracy of every
  (label, subset) pair is the fraction of the rows \<open>i\<close> of the subset for which the
  argmax of \<open>P[i]\<close> equals the argmax of the label row. The two returned lists are
  parallel: they have one entry per pair of \<open>zip(labels, indices)\<close>, in the order of the
  pairs, and entry \<open>k\<close> of each is the loss, respectively the accuracy, of pair \<open>k\<close>.
\<close>

theorem evaluate_preds_masked_accuracy:
  assumes "wf_matrix P" and "0 < ncols P"
    and "list_all (\<lambda>(L, idx). valid_split P L idx \<and> idx \<noteq> []) (zip labels indices)"
  shows "\<exists>losses accs. evaluate_preds (Some P) labels indices = Inr (losses, accs)
           \<and> length losses = length accs
           \<and> length accs = min (length labels) (length indices)
           \<and> (\<forall>k < length accs.
                 accs ! k = masked_accuracy P (labels ! k) (indices ! k)
               \<and> accuracy (manual_slice P (indices ! k)) (manual_slice (labels ! k) (indices ! k))
                   = Inr (accs ! k)
               \<and> categorical_crossentropy (manual_slice P (indices ! k))
                     (manual_slice (labels ! k) (indices ! k)) = Inr (losses ! k))"
proof -
  from assms(3) have valid: "list_all (\<lambda>(L, idx). valid_split P L idx) (zip labels indices)"
    by (auto simp: list_all_iff)
  let ?losses = "map (\<lambda>(L, idx). loss_of P L idx) (zip labels indices)"
  let ?accs = "map (\<lambda>(L, idx). acc_of P L idx) (zip labels indices)"
  have run: "evaluate_preds (Some P) labels indices = Inr (?losses, ?accs)"
    by (rule evaluate_preds_valid[OF assms(1,2) valid])
  have each: "?accs ! k = masked_accuracy P (labels ! k) (indices ! k)
      \<and> accuracy (manual_slice P (indices ! k)) (manual_slice (labels ! k) (indices ! k)) = Inr (?accs ! k)
      \<and> categorical_crossentropy (manual_slice P (indices ! k))
            (manual_slice (labels ! k) (indices ! k)) = Inr (?losses ! k)"
    if k: "k < length ?accs" for k
  proof -
    from k have kk: "k < length labels" "k < length indices" by simp_all
    then have mem: "(labels ! k, indices ! k) \<in> set (zip labels indices)"
      by (auto simp: set_zip)
    with assms(3) have v: "valid_split P (labels ! k) (indices ! k)" and ne: "indices ! k \<noteq> []"
      by (auto simp: list_all_iff)
    from kk have "?accs ! k = acc_of P (labels ! k) (indices ! k)"
      and "?losses ! k = loss_of P (labels ! k) (indices ! k)" by simp_all
    then show ?thesis
      by (simp add: acc_of_masked[OF v ne, symmetric] slice_accuracy[OF assms(2) v]
            slice_crossentropy[OF assms(1) v])
  qed
  show ?thesis
    apply (rule exI[of _ ?losses], rule exI[of _ ?accs])
    using run each by simp
qed

theorem evaluate_preds_masked_accuracy_witness:
  "wf_matrix P_ex \<and> 0 < ncols P_ex
   \<and> list_all (\<lambda>(L, idx). valid_split P_ex L idx \<and> idx \<noteq> []) (zip [L_ex, L_ex] [[0, 1], [-1]])
   \<and> (\<exists>losses accs. evaluate_preds (Some P_ex) [L_ex, L_ex] [[0, 1], [-1]] = Inr (losses, accs)
           \<and> length losses = length accs
           \<and> length accs = min (length [L_ex, L_ex]) (length [[0, 1], [-1::int]])
           \<and> (\<forall>k < length accs.
                 accs ! k = masked_accuracy P_ex ([L_ex, L_ex] ! k) ([[0, 1], [-1]] ! k)
               \<and> accuracy (manual_slice P_ex ([[0, 1], [-1]] ! k)) (manual_slice ([L_ex, L_ex] ! k) ([[0, 1], [-1]] ! k))
                   = Inr (accs ! k)
               \<and> categorical_crossentropy (manual_slice P_ex ([[0, 1], [-1]] ! k))
                     (manual_slice ([L_ex, L_ex] ! k) ([[0, 1], [-1]] ! k)) = Inr (losses ! k)))"
proof -
  have h1: "wf_matrix P_ex" by (simp add: ex_defs)
  have h2: "0 < ncols P_ex" by (simp add: ex_defs)
  have h3: "list_all (\<lambda>(L, idx). valid_split P_ex L idx \<and> idx \<noteq> []) (zip [L_ex, L_ex] [[0, 1], [-1]])"
    by (simp add: ex_defs)
  from evaluate_preds_masked_accuracy[OF h1 h2 h3] h1 h2 h3 show ?thesis by blast
qed

subsection \<open>Empty index subsets\<close>

text \<open>
  An empty index subset: \<open>evaluate_preds\<close> has no guard; it returns, and both values
  of the pair are NaN.
\<close>

theorem empty_subset_counterexample:
  "evaluate_preds (Some P_ex) [L_ex] [[]] = Inr ([NaN], [NaN])"
  by (simp add: eval_defs P_ex_def L_ex_def)

text \<open>
  C4, amended. With an empty index subset for some (label, subset) pair,
  \<open>evaluate_preds\<close> does not fail: it returns its two lists as usual, and the loss and
  the accuracy of that pair are both NaN.
\<close>

theorem evaluate_preds_empty_subset:
  assumes "wf_matrix P" and "0 < ncols P"
    and "list_all (\<lambda>(L, idx). valid_split P L idx) (zip labels indices)"
  shows "\<exists>losses accs. evaluate_preds (Some P) labels indices = Inr (losses, accs)
           \<and> length losses = min (length labels) (length indices)
           \<and> length accs = min (length labels) (length indices)
           \<and> (\<forall>k < min (length labels) (length indices).
                 indices ! k = [] \<longrightarrow> losses ! k = NaN \<and> accs ! k = NaN)"
proof -
  let ?losses = "map (\<lambda>(L, idx). loss_of P L idx) (zip labels indices)"
  let ?accs = "map (\<lambda>(L, idx). acc_of P L idx) (zip labels indices)"
  have run: "evaluate_preds (Some P) labels indices = Inr (?losses, ?accs)"
    by (rule evaluate_preds_valid[OF assms])
  have "loss_of P L [] = NaN" "acc_of P L [] = NaN" for L
    by (simp_all add: loss_of_def acc_of_def np_mean_def)
  then have "\<forall>k < min (length labels) (length indices).
       indices ! k = [] \<longrightarrow> ?losses ! k = NaN \<and> ?accs ! k = NaN"
    by simp
  with run show ?thesis by simp
qed

theorem evaluate_preds_empty_subset_witness:
  "wf_matrix P_ex \<and> 0 < ncols P_ex
   \<and> list_all (\<lambda>(L, idx). valid_split P_ex L idx) (zip [L_ex, L_ex] [[0, 1], []])
   \<and> (\<exists>losses accs. evaluate_preds (Some P_ex) [L_ex, L_ex] [[0, 1], []] = Inr (losses, accs)
           \<and> losses ! 1 = NaN \<and> accs ! 1 = NaN)"
proof -
  have h1: "wf_matrix P_ex" by (simp add: ex_defs)
  have h2: "0 < ncols P_ex" by (simp add: ex_defs)
  have h3: "list_all (\<lambda>(L, idx). valid_split P_ex L idx) (zip [L_ex, L_ex] [[0, 1], []])"
    by (simp add: ex_defs)
  from evaluate_preds_empty_subset[OF h1 h2 h3] h1 h2 h3 show ?thesis by auto
qed

subsection \<open>The events of the training loop\<close>

lemma evaluate_train_val:
  assumes "good_preds ds P"
  shows "evaluate_preds (Some P) [split_Y (train ds), split_Y (val ds)]
           [split_X_idx (train ds), split_X_idx (val ds)]
         = Inr ([loss_of P (split_Y (train ds)) (split_X_idx (train ds)),
                 loss_of P (split_Y (val ds)) (split_X_idx (val ds))],
                [acc_of P (split_Y (train ds)) (split_X_idx (train ds)),
                 acc_of P (split_Y (val ds)) (split_X_idx (val ds))])"
  using assms by (subst evaluate_preds_valid) (simp_all add: good_preds_def)

lemma evaluate_test:
  assumes "good_preds ds P"
  shows "evaluate_preds (Some P) [split_Y (test ds)] [split_X_idx (test ds)]
         = Inr ([loss_of P (split_Y (test ds)) (split_X_idx (test ds))],
                [acc_of P (split_Y (test ds)) (split_X_idx (test ds))])"
  using assms by (subst evaluate_preds_valid) (simp_all add: good_preds_def)

lemma evaluate_preds_None: "evaluate_preds None (y # labels) (i # indices) = Inl TypeError"
  by (simp add: evaluate_preds_def)

lemma epoch_loop_trace:
  assumes good: "\<And>m. good_preds ds (predict m)"
  shows "epoch_loop fit predict ds es st
       = Inr \<lparr>model = (fit ^^ length es) (model st),
              Y_hat = (if es = [] then Y_hat st else Some (predict ((fit ^^ length es) (model st)))),
              out = out st @ training_events fit predict ds (model st) es\<rparr>"
proof (induction es arbitrary: st)
  case Nil
  show ?case by simp
next
  case (Cons epoch rest)
  show ?case
    by (simp add: Let_def evaluate_train_val[OF good] Cons.IH epoch_events_def funpow_swap1)
qed

lemma run_trace:
  assumes good: "\<And>m. good_preds ds (predict m)" and "1 \<le> nepoch"
  shows "run fit predict ds nepoch m0
       = Inr (training_events fit predict ds m0 [1..nepoch]
              @ [PrintTest (loss_of (predict ((fit ^^ nat nepoch) m0)) (split_Y (test ds)) (split_X_idx (test ds)))
                          (acc_of (predict ((fit ^^ nat nepoch) m0)) (split_Y (test ds)) (split_X_idx (test ds)))])"
proof -
  from assms(2) have ne: "[1..nepoch] \<noteq> []" by (simp add: upto.simps)
  have "epoch_loop fit predict ds [1..nepoch] \<lparr>model = m0, Y_hat = None, out = []\<rparr>
       = Inr \<lparr>model = (fit ^^ nat nepoch) m0,
              Y_hat = Some (predict ((fit ^^ nat nepoch) m0)),
              out = training_events fit predict ds m0 [1..nepoch]\<rparr>"
    using ne by (simp add: epoch_loop_trace[OF good])
  then show ?thesis
    by (simp add: run_def evaluate_test[OF good])
qed

lemma run_no_epoch: "nepoch \<le> 0 \<Longrightarrow> run fit predict ds nepoch m0 = Inl (TypeError, [])"
  by (simp add: run_def evaluate_preds_None)

lemma forward_passes_training: "forward_passes (training_events fit predict ds m es) = length es"
  by (induction es arbitrary: m) (simp_all add: forward_passes_def epoch_events_def)

lemma progress_epochs_training: "progress_epochs (training_events fit predict ds m es) = es"
  by (induction es arbitrary: m) (simp_all add: epoch_events_def progress_epochs_def)

lemma training_events_snoc:
  "training_events fit predict ds m (es @ [e])
   = training_events fit predict ds m es @ epoch_events ds (predict ((fit ^^ Suc (length es)) m)) e"
  by (induction es arbitrary: m) (simp_all add: funpow_swap1)

lemma epoch_loop_no_time_line:
  "\<not> list_ex is_time_line (out st) \<Longrightarrow>
   (case epoch_loop fit predict ds es st of
      Inl (e, evs) \<Rightarrow> \<not> list_ex is_time_line evs
    | Inr st' \<Rightarrow> \<not> list_ex is_time_line (out st'))"
proof (induction es arbitrary: st)
  case Nil
  then show ?case by simp
next
  case (Cons epoch rest)
  show ?case
  proof (cases "evaluate_preds (Some (predict (fit (model st))))
                [split_Y (train ds), split_Y (val ds)]
                [split_X_idx (train ds), split_X_idx (val ds)]")
    case (Inl e)
    with Cons.prems show ?thesis by (simp add: Let_def)
  next
    case (Inr res)
    obtain ls as where res: "res = (ls, as)" by (cases res)
    let ?st = "\<lparr>model = fit (model st), Y_hat = Some (predict (fit (model st))),
                out = out st @ [Fit, Predict, PrintEpoch epoch (ls ! 0) (as ! 0) (ls ! 1) (as ! 1)]\<rparr>"
    from Cons.prems have "\<not> list_ex is_time_line (out ?st)" by simp
    from Cons.IH[OF this] Inr res show ?thesis by (simp add: Let_def)
  qed
qed

lemma run_no_time_line: "\<not> list_ex is_time_line (events_of (run fit predict ds nepoch m0))"
proof -
  have "\<not> list_ex is_time_line (out \<lparr>model = m0, Y_hat = None, out = []\<rparr>)" by simp
  from epoch_loop_no_time_line[OF this, of fit predict ds "[1..nepoch]"]
  show ?thesis
    by (auto simp: run_def split: sum.splits prod.splits)
qed

subsection \<open>The test evaluation\<close>

text \<open>
  A run of one epoch: the only forward pass is the one of the epoch, and the test line
  follows the progress line of the epoch directly.
\<close>

theorem final_forward_pass_counterexample:
  "run Suc (\<lambda>m. P_ex) ds_ex 1 0
     = Inr [Fit, Predict, PrintEpoch 1 (Fin (ln 2)) (Fin 1) (Fin (ln (4 / 3))) (Fin 1), PrintTest (Fin 0) (Fin 1)]"
  by (simp add: run_def upto.simps Let_def eval_defs ds_ex_def P_ex_def L_ex_def upt_rec ln_div)

text \<open>
  C5, amended. After the final epoch \<open>run\<close> makes no further forward pass: the events
  of a run of \<open>nepoch \<ge> 1\<close> epochs end with the fit, the forward pass and the progress line
  of epoch \<open>nepoch\<close>, followed at once by the test line; the run makes \<open>nepoch\<close> forward
  passes in all. The test loss and accuracy are those of \<open>evaluate_preds\<close>, restricted to
  the test subset, on the prediction matrix of the last epoch's forward pass.
\<close>

theorem run_test_evaluation:
  assumes "1 \<le> nepoch" and "\<forall>m. good_preds ds (predict m)"
  shows "\<exists>evs tl ta vl va l a.
           run fit predict ds nepoch m0
             = Inr (evs @ [Fit, Predict, PrintEpoch nepoch tl ta vl va, PrintTest l a])
         \<and> forward_passes (evs @ [Fit, Predict, PrintEpoch nepoch tl ta vl va, PrintTest l a]) = nat nepoch
         \<and> evaluate_preds (Some (predict ((fit ^^ nat nepoch) m0)))
               [split_Y (test ds)] [split_X_idx (test ds)] = Inr ([l], [a])"
proof -
  from assms(2) have good: "\<And>m. good_preds ds (predict m)" by simp
  let ?P = "predict ((fit ^^ nat nepoch) m0)"
  let ?l = "loss_of ?P (split_Y (test ds)) (split_X_idx (test ds))"
  let ?a = "acc_of ?P (split_Y (test ds)) (split_X_idx (test ds))"
  from assms(1) have up: "[1..nepoch] = [1..nepoch - 1] @ [nepoch]"
    by (simp add: upto_rec2)
  from assms(1) have n: "Suc (length [1..nepoch - 1]) = nat nepoch" by simp
  have tr: "training_events fit predict ds m0 [1..nepoch]
        = training_events fit predict ds m0 [1..nepoch - 1] @ epoch_events ds ?P nepoch"
    by (subst up) (simp only: training_events_snoc n)
  have fp: "forward_passes (training_events fit predict ds m0 [1..nepoch] @ [PrintTest ?l ?a]) = nat nepoch"
    using forward_passes_training[of fit predict ds m0 "[1..nepoch]"]
    by (simp add: forward_passes_def)
  have r: "run fit predict ds nepoch m0 = Inr (training_events fit predict ds m0 [1..nepoch] @ [PrintTest ?l ?a])"
    by (rule run_trace[OF good assms(1)])
  show ?thesis
    apply (rule exI[of _ "training_events fit predict ds m0 [1..nepoch - 1]"])
    using r fp evaluate_test[OF good, of "(fit ^^ nat nepoch) m0"]
    by (simp add: tr epoch_events_def)
qed

theorem run_test_evaluation_witness:
  "(1::int) \<le> 2 \<and> (\<forall>m::nat. good_preds ds_ex ((\<lambda>m. P_ex) m))
   \<and> (\<exists>evs tl ta vl va l a.
           run Suc (\<lambda>m. P_ex) ds_ex 2 0
             = Inr (evs @ [Fit, Predict, PrintEpoch 2 tl ta vl va, PrintTest l a])
         \<and> forward_passes (evs @ [Fit, Predict, PrintEpoch 2 tl ta vl va, PrintTest l a]) = 2
         \<and> evaluate_preds (Some P_ex) [split_Y (test ds_ex)] [split_X_idx (test ds_ex)] = Inr ([l], [a]))"
proof -
  have h1: "(1::int) \<le> 2" by simp
  have h2: "\<forall>m::nat. good_preds ds_ex ((\<lambda>m. P_ex) m)" by (simp add: ex_good)
  from run_test_evaluation[OF h1 h2, of Suc 0] h2 show ?thesis by simp
qed

subsection \<open>The progress lines\<close>

text \<open>
  C9. \<open>epoch % 1 == 0\<close> holds for every epoch, so no run ever prints the time-only line
  of the \<open>else\<close> branch; and a run of \<open>nepoch \<ge> 1\<close> epochs on data that the evaluator
  accepts prints the full progress line for every epoch \<open>1..nepoch\<close>, in order.
\<close>

theorem run_progress_every_epoch:
  "\<not> list_ex is_time_line (events_of (run fit predict ds nepoch m0))
   \<and> (\<forall>epoch \<in> set [1..nepoch]. epoch mod 1 = 0)
   \<and> (1 \<le> nepoch \<and> (\<forall>m. good_preds ds (predict m)) \<longrightarrow>
        (\<exists>evs. run fit predict ds nepoch m0 = Inr evs \<and> progress_epochs evs = [1..nepoch]))"
proof -
  have "\<exists>evs. run fit predict ds nepoch m0 = Inr evs \<and> progress_epochs evs = [1..nepoch]"
    if "1 \<le> nepoch" and good: "\<And>m. good_preds ds (predict m)"
    using progress_epochs_training[of fit predict ds m0 "[1..nepoch]"]
    by (simp add: run_trace[OF good that(1)] progress_epochs_def)
  then show ?thesis
    using run_no_time_line[of fit predict ds nepoch m0] by simp
qed

theorem run_progress_every_epoch_witness:
  "\<not> list_ex is_time_line (events_of (run Suc (\<lambda>m. P_ex) ds_ex 2 0))
   \<and> (1::int) mod 1 = 0 \<and> (2::int) mod 1 = 0
   \<and> 1 \<le> (2::int) \<and> (\<forall>m::nat. good_preds ds_ex ((\<lambda>m. P_ex) m))
   \<and> (\<exists>evs. run Suc (\<lambda>m. P_ex) ds_ex 2 0 = Inr evs \<and> progress_epochs evs = [1, 2])"
proof -
  have h2: "\<forall>m::nat. good_preds ds_ex ((\<lambda>m. P_ex) m)" by (simp add: ex_good)
  have up: "[1..2::int] = [1, 2]" by (simp add: upto.simps)
  from run_progress_every_epoch[of Suc "\<lambda>m. P_ex" ds_ex 2 0] h2 show ?thesis
    by (simp add: up)
qed

subsection \<open>The epoch count\<close>

text \<open>
  C10. With an epoch count of 0 (or less) the loop body never runs, \<open>Y_hat\<close> is still
  \<open>None\<close> and the test evaluation raises \<open>TypeError\<close> when it indexes it, before
  anything is printed; with \<open>nepoch \<ge> 1\<close>, on data that the evaluator accepts, the run
  ends with the line of the test results.
\<close>

theorem run_needs_an_epoch:
  "(nepoch \<le> 0 \<longrightarrow> run fit predict ds nepoch m0 = Inl (TypeError, []))
   \<and> (1 \<le> nepoch \<and> (\<forall>m. good_preds ds (predict m)) \<longrightarrow>
        (\<exists>evs l a. run fit predict ds nepoch m0 = Inr (evs @ [PrintTest l a])))"
proof -
  have "\<exists>evs l a. run fit predict ds nepoch m0 = Inr (evs @ [PrintTest l a])"
    if "1 \<le> nepoch" and good: "\<And>m. good_preds ds (predict m)"
    by (simp add: run_trace[OF good that(1)])
  then show ?thesis
    by (simp add: run_no_epoch)
qed

theorem run_needs_an_epoch_witness:
  "run Suc (\<lambda>m. P_ex) ds_ex 0 0 = Inl (TypeError, [])
   \<and> 1 \<le> (2::int) \<and> (\<forall>m::nat. good_preds ds_ex ((\<lambda>m. P_ex) m))
   \<and> (\<exists>evs l a. run Suc (\<lambda>m. P_ex) ds_ex 2 0 = Inr (evs @ [PrintTest l a]))"
proof -
  have h2: "\<forall>m::nat. good_preds ds_ex ((\<lambda>m. P_ex) m)" by (simp add: ex_good)
  from run_needs_an_epoch[of 0 Suc "\<lambda>m. P_ex" ds_ex 0]
       run_needs_an_epoch[of 2 Suc "\<lambda>m. P_ex" ds_ex 0] h2
  show ?thesis by simp
qed

subsection \<open>The dictionaries of the dataset builder\<close>

lemma update_fresh: "k \<notin> fst ` set d \<Longrightarrow> AList.update k v d = d @ [(k, v)]"
  by (induction d) auto

lemma foldl_update_fresh:
  "distinct xs \<Longrightarrow> set xs \<inter> fst ` set d = {} \<Longrightarrow>
   foldl (\<lambda>d (i, label). AList.update label i d) d (enumerate n xs) = d @ zip xs [n..<n + length xs]"
proof (induction xs arbitrary: d n)
  case Nil
  then show ?case by simp
next
  case (Cons x xs)
  from Cons.prems have fresh: "x \<notin> fst ` set d" by auto
  from Cons.prems have rest: "distinct xs" "set xs \<inter> fst ` set (d @ [(x, n)]) = {}" by auto
  have up: "[n..<n + length (x # xs)] = n # [Suc n..<Suc n + length xs]"
    by (subst upt_rec) (simp del: upt_Suc)
  show ?case
    using Cons.IH[OF rest, of "Suc n"] by (simp only: up enumerate_simps foldl_Cons zip_Cons_Cons prod.case update_fresh[OF fresh] append_assoc append_Cons append_Nil)
qed

lemma enumerate_map_distinct: "distinct xs \<Longrightarrow> enumerate_map xs = zip xs [0..<length xs]"
  using foldl_update_fresh[of xs "[]" 0] by (simp add: enumerate_map_def)

lemma foldl_update_keys:
  "fst ` set (foldl (\<lambda>d (i, label). AList.update label i d) d (enumerate n xs)) = fst ` set d \<union> set xs"
  by (induction xs arbitrary: d n) (auto simp: dom_update)

lemma enumerate_map_keys: "fst ` set (enumerate_map xs) = set xs"
  by (simp add: enumerate_map_def foldl_update_keys)

lemma foldl_update_distinct:
  "distinct (map fst d) \<Longrightarrow> distinct (map fst (foldl (\<lambda>d (i, label). AList.update label i d) d (enumerate n xs)))"
  by (induction xs arbitrary: d n) (auto simp: distinct_update)

lemma length_enumerate_map: "length (enumerate_map xs) = card (set xs)"
proof -
  have "distinct (map fst (enumerate_map xs))"
    by (simp add: enumerate_map_def foldl_update_distinct)
  then have "card (set (map fst (enumerate_map xs))) = length (map fst (enumerate_map xs))"
    by (rule distinct_card)
  then show ?thesis by (simp add: enumerate_map_keys)
qed

lemma dict_get_nth:
  "distinct xs \<Longrightarrow> i < length xs \<Longrightarrow> dict_get (enumerate_map xs) (xs ! i) = Inr i"
  using map_of_zip_nth[of xs "[0..<length xs]" i]
  by (simp add: enumerate_map_distinct dict_get_def)

lemma dict_get_present:
  assumes "distinct xs" "x \<in> set xs"
  shows "\<exists>i < length xs. xs ! i = x \<and> dict_get (enumerate_map xs) x = Inr i"
proof -
  from assms(2) obtain i where "i < length xs" "xs ! i = x" by (auto simp: in_set_conv_nth)
  with dict_get_nth[OF assms(1), of i] show ?thesis by auto
qed

lemma dict_get_error: "dict_get d k = Inl e \<Longrightarrow> e = KeyError"
  by (auto simp: dict_get_def split: option.splits)

lemma map_err_first_error:
  assumes "\<forall>x e. f x = Inl e \<longrightarrow> e = err" and "\<exists>x \<in> set xs. f x = Inl err"
  shows "map_err f xs = Inl err"
  using assms(2)
proof (induction xs)
  case Nil
  then show ?case by simp
next
  case (Cons x xs)
  show ?case
  proof (cases "f x")
    case (Inl e)
    with assms(1) show ?thesis by auto
  next
    case (Inr y)
    with Cons.prems have "\<exists>x \<in> set xs. f x = Inl err" by auto
    from Cons.IH[OF this] Inr show ?thesis by simp
  qed
qed

subsection \<open>Target nodes outside the graph\<close>

text \<open>
  C6. If the node of some target statement is absent from \<open>nodes_map\<close>,
  \<open>build_dataset\<close> raises \<open>KeyError\<close>: it returns nothing.
\<close>

theorem build_dataset_absent_node:
  assumes "\<exists>(x, r, y) \<in> set target_triples. map_of (enumerate_map atoms) x = None"
  shows "build_dataset set_order atoms target_triples = Inl KeyError"
proof -
  let ?f = "\<lambda>(x, r, y).
                 case dict_get (enumerate_map atoms) x of
                   Inl e \<Rightarrow> Inl e
                 | Inr i \<Rightarrow> (case dict_get (enumerate_map (set_order (remdups (map (\<lambda>(x, r, y). y) target_triples)))) y of Inl e \<Rightarrow> Inl e | Inr j \<Rightarrow> Inr (i, j))"
  have only: "\<forall>t e. ?f t = Inl e \<longrightarrow> e = KeyError"
    by (auto split: sum.splits prod.splits dest: dict_get_error)
  from assms have "\<exists>t \<in> set target_triples. ?f t = Inl KeyError"
    by (auto simp: dict_get_def intro!: bexI)
  from map_err_first_error[OF only this]
  show ?thesis
    by (simp add: build_dataset_def Let_def)
qed

theorem build_dataset_absent_node_witness:
  "(\<exists>(x, r, y) \<in> set [(''alice'', ''type'', ''person''), (''dave'', ''type'', ''robot'')].
       map_of (enumerate_map atoms_ex) x = None)
   \<and> build_dataset rev atoms_ex [(''alice'', ''type'', ''person''), (''dave'', ''type'', ''robot'')]
       = Inl KeyError"
proof -
  have h: "\<exists>(x, r, y) \<in> set [(''alice'', ''type'', ''person''), (''dave'', ''type'', ''robot'')].
       map_of (enumerate_map atoms_ex) x = None"
    by (simp add: enumerate_map_def atoms_ex_def)
  from build_dataset_absent_node[OF h, of rev] h show ?thesis by blast
qed

subsection \<open>The label matrix\<close>

lemma sum_ones:
  "sum_list (map fst (filter (\<lambda>(v, rc). rc = p) (zip (replicate (length coords) (1::int)) coords)))
   = int (length (filter (\<lambda>rc. rc = p) coords))"
  by (induction coords) auto

lemma csr_matrix_ones:
  assumes "list_all (\<lambda>(r, c). r < n \<and> c < m) coords"
  shows "csr_matrix (replicate (length coords) 1) coords (n, m)
       = Inr \<lparr>ncols = m, rows = map (\<lambda>r. map (\<lambda>c. int (length (filter (\<lambda>rc. rc = (r, c)) coords))) [0..<m]) [0..<n]\<rparr>"
  using assms by (simp add: csr_matrix_def sum_ones)

lemma target_classes_props:
  assumes "iteration_order set_order"
  shows "distinct (target_classes set_order ts)"
    and "set (target_classes set_order ts) = (\<lambda>(x, r, y). y) ` set ts"
  using assms by (simp_all add: iteration_order_def target_classes_def)

lemma build_dataset_result:
  assumes ok: "consistent_input set_order atoms ts"
  shows "\<exists>idx. build_dataset set_order atoms ts
           = Inr (csr_empty (length atoms, length atoms),
                  label_matrix atoms (target_classes set_order ts) ts, idx)"
proof -
  let ?cs = "target_classes set_order ts"
  let ?f = "\<lambda>(x, r, y).
                 case dict_get (enumerate_map atoms) x of
                   Inl e \<Rightarrow> Inl e
                 | Inr i \<Rightarrow> (case dict_get (enumerate_map ?cs) y of Inl e \<Rightarrow> Inl e | Inr j \<Rightarrow> Inr (i, j))"
  let ?g = "\<lambda>t. projr (?f t)"
  from ok have io: "iteration_order set_order" and da: "distinct atoms" and ne: "ts \<noteq> []"
    and nodes: "\<And>x r y. (x, r, y) \<in> set ts \<Longrightarrow> x \<in> set atoms"
    by (auto simp: consistent_input_def list_all_iff)
  note dc = target_classes_props(1)[OF io, of ts]
  note sc = target_classes_props(2)[OF io, of ts]
  have each: "\<exists>i j. i < length atoms \<and> j < length ?cs \<and> atoms ! i = x \<and> ?cs ! j = y
                  \<and> ?f (x, r, y) = Inr (i, j)"
    if "(x, r, y) \<in> set ts" for x r y
  proof -
    from dict_get_present[OF da nodes[OF that]]
    obtain i where i: "i < length atoms" "atoms ! i = x" "dict_get (enumerate_map atoms) x = Inr i"
      by auto
    from that have "y \<in> set ?cs" by (force simp: sc)
    from dict_get_present[OF dc this]
    obtain j where j: "j < length ?cs" "?cs ! j = y" "dict_get (enumerate_map ?cs) y = Inr j"
      by auto
    from i j show ?thesis by auto
  qed
  have fg: "\<And>t. t \<in> set ts \<Longrightarrow> ?f t = Inr (?g t)"
  proof -
    fix t assume t: "t \<in> set ts"
    obtain x r y where [simp]: "t = (x, r, y)" by (cases t)
    from each[of x r y] t obtain i j where "?f (x, r, y) = Inr (i, j)" by auto
    then show "?f t = Inr (?g t)" by simp
  qed
  have labels: "map_err ?f ts = Inr (map ?g ts)"
    by (rule map_err_Inr[OF fg])
  have range: "list_all (\<lambda>(r, c). r < length atoms \<and> c < length ?cs) (map ?g ts)"
  proof -
    have "\<And>t. t \<in> set ts \<Longrightarrow> (case ?g t of (r, c) \<Rightarrow> r < length atoms \<and> c < length ?cs)"
    proof -
      fix t assume t: "t \<in> set ts"
      obtain x r y where [simp]: "t = (x, r, y)" by (cases t)
      from each[of x r y] t obtain i j where "i < length atoms" "j < length ?cs" "?f (x, r, y) = Inr (i, j)" by auto
      then show "case ?g t of (r, c) \<Rightarrow> r < length atoms \<and> c < length ?cs" by simp
    qed
    then show ?thesis by (simp add: list_all_iff)
  qed
  have count: "length (filter (\<lambda>rc. rc = (i, j)) (map ?g ts)) = statements_of ts (atoms ! i) (?cs ! j)"
    if "i < length atoms" "j < length ?cs" for i j
  proof -
    have "\<And>t. t \<in> set ts \<Longrightarrow> (?g t = (i, j)) = (case t of (x', r, y') \<Rightarrow> x' = atoms ! i \<and> y' = ?cs ! j)"
    proof -
      fix t assume t: "t \<in> set ts"
      obtain x r y where [simp]: "t = (x, r, y)" by (cases t)
      from each[of x r y] t obtain i' j' where
        *: "i' < length atoms" "j' < length ?cs" "atoms ! i' = x" "?cs ! j' = y" "?f (x, r, y) = Inr (i', j')"
        by auto
      from * that da dc have "(i' = i) = (x = atoms ! i)" "(j' = j) = (y = ?cs ! j)"
        by (auto simp: nth_eq_iff_index_eq)
      with * show "(?g t = (i, j)) = (case t of (x', r, y') \<Rightarrow> x' = atoms ! i \<and> y' = ?cs ! j)"
        by simp
    qed
    then have "filter (\<lambda>t. ?g t = (i, j)) ts = filter (\<lambda>(x', r, y'). x' = atoms ! i \<and> y' = ?cs ! j) ts"
      by (intro filter_cong) auto
    then show ?thesis
      by (simp add: statements_of_def comp_def)
  qed
  have Y: "csr_matrix (replicate (length (map ?g ts)) 1) (map ?g ts) (length atoms, length ?cs)
        = Inr (label_matrix atoms ?cs ts)"
    by (simp only: csr_matrix_ones[OF range] label_matrix_def) (simp add: count del: length_filter_map)
  have lens: "length (enumerate_map atoms) = length atoms" "length (enumerate_map ?cs) = length ?cs"
    using da dc by (simp_all add: enumerate_map_distinct)
  have zipg: "zip (map fst (map ?g ts)) (map snd (map ?g ts)) = map ?g ts"
    by (rule zip_map_fst_snd)
  have "build_dataset set_order atoms ts
        = Inr (csr_empty (length atoms, length atoms), label_matrix atoms ?cs ts, map fst (map ?g ts))"
    unfolding build_dataset_def Let_def target_classes_def[symmetric]
    using ne by (simp only: labels sum.case lens zipg) (simp add: Y[simplified])
  then show ?thesis by blast
qed

lemma statements_of_unique:
  "distinct (map fst ts) \<Longrightarrow> (x, r, y) \<in> set ts \<Longrightarrow> statements_of ts x y' = (if y' = y then 1 else 0)"
proof (induction ts)
  case Nil
  then show ?case by simp
next
  case (Cons t ts)
  obtain x1 r1 y1 where t: "t = (x1, r1, y1)" by (cases t)
  show ?case
  proof (cases "x1 = x")
    case True
    with Cons.prems t have "x \<notin> fst ` set ts" by auto
    then have none: "filter (\<lambda>(x', r, y''). x' = x \<and> y'' = y') ts = []"
      by (auto simp: filter_empty_conv image_iff)
    from Cons.prems t True \<open>x \<notin> fst ` set ts\<close> have "y1 = y" by (auto simp: image_iff)
    with True t none show ?thesis by (auto simp: statements_of_def)
  next
    case False
    with Cons.prems t have "(x, r, y) \<in> set ts" "distinct (map fst ts)" by auto
    from Cons.IH[OF this(2,1)] False t show ?thesis by (simp add: statements_of_def)
  qed
qed

lemma statements_of_unlabeled: "x \<notin> fst ` set ts \<Longrightarrow> statements_of ts x y = 0"
  by (auto simp: statements_of_def filter_empty_conv image_iff)

lemma one_hot_row:
  assumes "distinct cs" "j < length cs"
  shows "map (\<lambda>j'. if cs ! j' = cs ! j then 1 else 0) [0..<length cs] = one_hot (length cs) j"
  using assms by (intro nth_equalityI) (auto simp: one_hot_def nth_list_update nth_eq_iff_index_eq)

lemma ex_consistent: "consistent_input rev atoms_ex targets_ex"
  by (simp add: consistent_input_def iteration_order_def atoms_ex_def targets_ex_def)

text \<open>
  C3. The claim fails on the code. The comment of line 38 announces a matrix of 1-hot class
  vectors per node, and the code gives \<open>np.ones\<close> as the values of \<open>Y\<close>; but for a node
  with two classes among the target statements the row of the node in the returned \<open>Y\<close>
  has two ones: the labeled row is not one-hot.
\<close>

theorem build_dataset_two_class_node:
  "build_dataset (\<lambda>cs. cs) [''alice'', ''bob'']
       [(''alice'', ''type'', ''person''), (''alice'', ''type'', ''robot'')]
     = Inr (\<lparr>ncols = 2, rows = [[Fin 0, Fin 0], [Fin 0, Fin 0]]\<rparr>,
            \<lparr>ncols = 2, rows = [[1, 1], [0, 0]]\<rparr>, [0, 0])
   \<and> [1, 1] \<noteq> one_hot 2 0 \<and> [1, 1] \<noteq> one_hot 2 1"
  by (simp add: build_dataset_def Let_def enumerate_map_def dict_get_def csr_matrix_def csr_empty_def
        one_hot_def upt_rec numeral_2_eq_2)

text \<open>
  The same defect shows when two target statements have the same node and class: the
  values given for the position are summed, and the entry is 2 instead of 1.
\<close>

lemma build_dataset_repeated_statement:
  "build_dataset (\<lambda>cs. cs) [''alice'', ''bob'']
       [(''alice'', ''type'', ''person''), (''alice'', ''kind'', ''person'')]
     = Inr (\<lparr>ncols = 2, rows = [[Fin 0, Fin 0], [Fin 0, Fin 0]]\<rparr>,
            \<lparr>ncols = 1, rows = [[2], [0]]\<rparr>, [0, 0])"
  by (simp add: build_dataset_def Let_def enumerate_map_def dict_get_def csr_matrix_def csr_empty_def upt_rec)

text \<open>
  Where the code and the comment of line 38 agree: on a consistent input in which no node
  occurs in two target statements, the entry of every target statement is 1, its row is
  one-hot, and the row of every unlabeled node is all-zero. The lemma also records what the
  code returns otherwise (the entry counts the statements of its position), which is the
  behaviour of the two inputs above.
\<close>

lemma build_dataset_label_matrix:
  assumes "consistent_input set_order atoms ts"
  shows "\<exists>X Y idx. build_dataset set_order atoms ts = Inr (X, Y, idx)
      \<and> wf_matrix Y
      \<and> nrows Y = length (enumerate_map atoms)
      \<and> ncols Y = length (enumerate_map (target_classes set_order ts))
      \<and> (\<forall>(x, r, y) \<in> set ts. \<exists>i j.
            dict_get (enumerate_map atoms) x = Inr i
          \<and> dict_get (enumerate_map (target_classes set_order ts)) y = Inr j
          \<and> i < nrows Y \<and> j < ncols Y
          \<and> rows Y ! i ! j = int (statements_of ts x y) \<and> 1 \<le> rows Y ! i ! j
          \<and> (distinct (map fst ts) \<longrightarrow> rows Y ! i ! j = 1 \<and> rows Y ! i = one_hot (ncols Y) j))
      \<and> (\<forall>i < nrows Y. atoms ! i \<notin> fst ` set ts \<longrightarrow> rows Y ! i = replicate (ncols Y) 0)"
proof -
  let ?cs = "target_classes set_order ts"
  let ?Y = "label_matrix atoms ?cs ts"
  from assms have io: "iteration_order set_order" and da: "distinct atoms"
    and nodes: "\<And>x r y. (x, r, y) \<in> set ts \<Longrightarrow> x \<in> set atoms"
    by (auto simp: consistent_input_def list_all_iff)
  note dc = target_classes_props(1)[OF io, of ts]
  note sc = target_classes_props(2)[OF io, of ts]
  from build_dataset_result[OF assms] obtain idx where
    res: "build_dataset set_order atoms ts = Inr (csr_empty (length atoms, length atoms), ?Y, idx)"
    by blast
  have wf: "wf_matrix ?Y"
    by (simp add: wf_matrix_def label_matrix_def list_all_iff)
  have nr: "nrows ?Y = length (enumerate_map atoms)" and nr': "nrows ?Y = length atoms"
    using da by (simp_all add: nrows_def label_matrix_def enumerate_map_distinct)
  have nc: "ncols ?Y = length (enumerate_map ?cs)" and nc': "ncols ?Y = length ?cs"
    using dc by (simp_all add: label_matrix_def enumerate_map_distinct)
  have row: "rows ?Y ! i = map (\<lambda>j. int (statements_of ts (atoms ! i) (?cs ! j))) [0..<length ?cs]"
    if "i < length atoms" for i
    using that by (simp add: label_matrix_def)
  have labeled: "\<exists>i j.
            dict_get (enumerate_map atoms) x = Inr i
          \<and> dict_get (enumerate_map ?cs) y = Inr j
          \<and> i < nrows ?Y \<and> j < ncols ?Y
          \<and> rows ?Y ! i ! j = int (statements_of ts x y) \<and> 1 \<le> rows ?Y ! i ! j
          \<and> (distinct (map fst ts) \<longrightarrow> rows ?Y ! i ! j = 1 \<and> rows ?Y ! i = one_hot (ncols ?Y) j)"
    if mem: "(x, r, y) \<in> set ts" for x r y
  proof -
    from dict_get_present[OF da nodes[OF mem]]
    obtain i where i: "i < length atoms" "atoms ! i = x" "dict_get (enumerate_map atoms) x = Inr i"
      by auto
    from mem have "y \<in> set ?cs" by (force simp: sc)
    from dict_get_present[OF dc this]
    obtain j where j: "j < length ?cs" "?cs ! j = y" "dict_get (enumerate_map ?cs) y = Inr j"
      by auto
    have entry: "rows ?Y ! i ! j = int (statements_of ts x y)"
      using i j by (simp add: row)
    from mem have "filter (\<lambda>(x', r, y'). x' = x \<and> y' = y) ts \<noteq> []"
      by (auto simp: filter_empty_conv)
    then have pos: "1 \<le> rows ?Y ! i ! j"
      unfolding entry statements_of_def by (cases "filter (\<lambda>(x', r, y'). x' = x \<and> y' = y) ts") auto
    have hot: "rows ?Y ! i ! j = 1 \<and> rows ?Y ! i = one_hot (ncols ?Y) j" if d: "distinct (map fst ts)"
    proof -
      have "rows ?Y ! i = map (\<lambda>j'. if ?cs ! j' = ?cs ! j then 1 else 0) [0..<length ?cs]"
        using i j by (simp add: row statements_of_unique[OF d mem])
      also have "\<dots> = one_hot (length ?cs) j"
        by (rule one_hot_row[OF dc j(1)])
      finally have "rows ?Y ! i = one_hot (ncols ?Y) j" by (simp add: nc')
      moreover have "rows ?Y ! i ! j = 1"
        using entry by (simp add: statements_of_unique[OF d mem])
      ultimately show ?thesis by simp
    qed
    show ?thesis
      apply (rule exI[of _ i], rule exI[of _ j])
      using i j entry pos hot by (auto simp: nr' nc' one_hot_def)
  qed
  have unlabeled: "rows ?Y ! i = replicate (ncols ?Y) 0"
    if "i < nrows ?Y" "atoms ! i \<notin> fst ` set ts" for i
    using that by (simp add: nr' row statements_of_unlabeled nc' map_replicate_const)
  show ?thesis
  proof (intro exI conjI)
    show "build_dataset set_order atoms ts = Inr (csr_empty (length atoms, length atoms), ?Y, idx)"
      by (rule res)
    show "\<forall>(x, r, y) \<in> set ts. \<exists>i j.
            dict_get (enumerate_map atoms) x = Inr i
          \<and> dict_get (enumerate_map ?cs) y = Inr j
          \<and> i < nrows ?Y \<and> j < ncols ?Y
          \<and> rows ?Y ! i ! j = int (statements_of ts x y) \<and> 1 \<le> rows ?Y ! i ! j
          \<and> (distinct (map fst ts) \<longrightarrow> rows ?Y ! i ! j = 1 \<and> rows ?Y ! i = one_hot (ncols ?Y) j)"
      using labeled by blast
    show "\<forall>i < nrows ?Y. atoms ! i \<notin> fst ` set ts \<longrightarrow> rows ?Y ! i = replicate (ncols ?Y) 0"
      using unlabeled by blast
  qed (rule wf nr nc)+
qed

lemma build_dataset_label_matrix_example:
  "consistent_input rev atoms_ex targets_ex
   \<and> (\<exists>X Y idx. build_dataset rev atoms_ex targets_ex = Inr (X, Y, idx)
        \<and> wf_matrix Y \<and> nrows Y = 3 \<and> ncols Y = 2
        \<and> (\<forall>(x, r, y) \<in> set targets_ex. \<exists>i j.
              dict_get (enumerate_map atoms_ex) x = Inr i
            \<and> dict_get (enumerate_map (target_classes rev targets_ex)) y = Inr j
            \<and> rows Y ! i ! j = 1 \<and> rows Y ! i = one_hot 2 j)
        \<and> rows Y ! 1 = [0, 0])"
proof -
  have d: "distinct (map fst targets_ex)" by (simp add: targets_ex_def)
  have n: "length (enumerate_map atoms_ex) = 3" "length (enumerate_map (target_classes rev targets_ex)) = 2"
    by (simp_all add: enumerate_map_def atoms_ex_def target_classes_def targets_ex_def)
  have u: "atoms_ex ! 1 \<notin> fst ` set targets_ex" by (simp add: atoms_ex_def targets_ex_def)
  from build_dataset_label_matrix[OF ex_consistent] obtain X Y idx where
    *: "build_dataset rev atoms_ex targets_ex = Inr (X, Y, idx)" "wf_matrix Y" "nrows Y = 3" "ncols Y = 2"
       "\<forall>(x, r, y) \<in> set targets_ex. \<exists>i j.
            dict_get (enumerate_map atoms_ex) x = Inr i
          \<and> dict_get (enumerate_map (target_classes rev targets_ex)) y = Inr j
          \<and> i < nrows Y \<and> j < ncols Y
          \<and> rows Y ! i ! j = int (statements_of targets_ex x y) \<and> 1 \<le> rows Y ! i ! j
          \<and> (distinct (map fst targets_ex) \<longrightarrow> rows Y ! i ! j = 1 \<and> rows Y ! i = one_hot (ncols Y) j)"
       "\<forall>i < nrows Y. atoms_ex ! i \<notin> fst ` set targets_ex \<longrightarrow> rows Y ! i = replicate (ncols Y) 0"
    unfolding n by blast
  from *(6) *(3) *(4) u have "rows Y ! 1 = [0, 0]"
    by (simp add: numeral_2_eq_2)
  moreover from *(5) d *(4) have "\<forall>(x, r, y) \<in> set targets_ex. \<exists>i j.
              dict_get (enumerate_map atoms_ex) x = Inr i
            \<and> dict_get (enumerate_map (target_classes rev targets_ex)) y = Inr j
            \<and> rows Y ! i ! j = 1 \<and> rows Y ! i = one_hot 2 j"
    by fastforce
  ultimately show ?thesis
    using * ex_consistent by blast
qed

subsection \<open>The feature matrix\<close>

text \<open>
  C8. \<open>build_dataset\<close> returns as \<open>X\<close> the placeholder of featureless mode: a matrix
  of the shape \<open>N\<times>N\<close> of the identity matrix, where \<open>N\<close> is the number of nodes in
  \<open>nodes_map\<close>, that is of the full node universe. It has no stored entry: all its
  entries are zero.
\<close>

theorem build_dataset_placeholder_features:
  assumes "consistent_input set_order atoms ts"
  shows "\<exists>X Y idx. build_dataset set_order atoms ts = Inr (X, Y, idx)
      \<and> length (enumerate_map atoms) = card (set atoms)
      \<and> shape X = (card (set atoms), card (set atoms))
      \<and> shape X = shape (identity_matrix (card (set atoms)))
      \<and> wf_matrix X
      \<and> rows X = replicate (card (set atoms)) (replicate (card (set atoms)) (Fin 0))"
proof -
  from assms have da: "distinct atoms" by (simp add: consistent_input_def)
  then have N: "card (set atoms) = length atoms" by (rule distinct_card)
  from build_dataset_result[OF assms] obtain idx where
    res: "build_dataset set_order atoms ts
          = Inr (csr_empty (length atoms, length atoms), label_matrix atoms (target_classes set_order ts) ts, idx)"
    by blast
  show ?thesis
    using res by (simp add: N length_enumerate_map shape_def nrows_def csr_empty_def identity_matrix_def wf_matrix_def list_all_iff)
qed

theorem build_dataset_placeholder_features_witness:
  "consistent_input rev atoms_ex targets_ex
   \<and> (\<exists>X Y idx. build_dataset rev atoms_ex targets_ex = Inr (X, Y, idx)
        \<and> shape X = (3, 3)
        \<and> rows X = [[Fin 0, Fin 0, Fin 0], [Fin 0, Fin 0, Fin 0], [Fin 0, Fin 0, Fin 0]])"
proof -
  have c: "card (set atoms_ex) = 3" by (simp add: atoms_ex_def)
  from build_dataset_placeholder_features[OF ex_consistent] ex_consistent
  show ?thesis
    unfolding c by (fastforce simp: numeral_3_eq_3)
qed

subsection \<open>The model builder\<close>

lemma filter_gc_pairs:
  "filter is_GraphConvolution (concat (map (\<lambda>i. [GraphConvolution (u i) s (b i) (f i) (a i) (w i), Dropout (d i)]) es))
   = map (\<lambda>i. GraphConvolution (u i) s (b i) (f i) (a i) (w i)) es"
  by (induction es) auto

lemma map_enumerate_fst: "map (\<lambda>(i, x). g i) (enumerate n xs) = map g [n..<n + length xs]"
proof (induction xs arbitrary: n)
  case Nil
  show ?case by simp
next
  case (Cons x xs)
  have "[n..<n + length (x # xs)] = n # [Suc n..<Suc n + length xs]"
    by (subst upt_rec) (simp del: upt_Suc)
  with Cons.IH[of "Suc n"] show ?case by simp
qed

lemma build_model_convolutions:
  assumes "2 \<le> length (model_layers config)"
  shows "\<exists>m. build_model X Y A config = Inr m
     \<and> graph_convolutions m
       = map (\<lambda>i. GraphConvolution (hidden_nodes (model_layers config ! i)) (length A)
                    (num_bases (model_layers config ! i)) (Some (featureless (model_layers config ! i)))
                    (activation (model_layers config ! i)) (Some (l2 (l2norm (model_layers config ! i)))))
           [0..<length (model_layers config) - 1]
         @ [GraphConvolution (ncols Y) (length A) (num_bases (last (model_layers config))) None
              (activation (last (model_layers config))) None]"
proof -
  let ?ls = "model_layers config"
  let ?gc = "\<lambda>i. GraphConvolution (hidden_nodes (?ls ! i)) (length A)
                    (num_bases (?ls ! i)) (Some (featureless (?ls ! i)))
                    (activation (?ls ! i)) (Some (l2 (l2norm (?ls ! i))))"
  let ?pair = "\<lambda>i. [?gc i, Dropout (dropout (?ls ! i))]"
  from assms have len: "1 + length (butlast (tl ?ls)) = length ?ls - 1" by simp
  from assms have up: "[0..<length ?ls - 1] = 0 # [1..<length ?ls - 1]"
    by (subst upt_rec) simp
  have mid: "concat (map (\<lambda>(i, layer). ?pair i) (enumerate 1 (butlast (tl ?ls))))
           = concat (map ?pair [1..<length ?ls - 1])"
    by (simp only: map_enumerate_fst len)
  have "filter is_GraphConvolution (?pair 0 @ concat (map ?pair [1..<length ?ls - 1])
           @ [GraphConvolution (ncols Y) (length A) (num_bases (last ?ls)) None (activation (last ?ls)) None])
        = map ?gc [0..<length ?ls - 1]
           @ [GraphConvolution (ncols Y) (length A) (num_bases (last ?ls)) None (activation (last ?ls)) None]"
    by (simp only: up filter_append filter_gc_pairs) simp
  with assms mid show ?thesis
    by (simp add: build_model_def Let_def graph_convolutions_def del: upt_Suc)
qed

text \<open>
  A two-layer configuration whose output layer has an \<open>l2norm\<close> of 0.0005: the output
  layer is built without a weight regularizer.
\<close>

theorem output_layer_regularizer_counterexample:
  "build_model (csr_empty (3, 3)) L_ex [(), ()] config_ex
     = Inr \<lparr>input_width = 3, adjacency_inputs = 2,
            net = [GraphConvolution 16 2 (-1) (Some True) ''relu'' (Some (l2 (5/10000))),
                   Dropout (1/2),
                   GraphConvolution 2 2 (-1) None ''softmax'' None],
            compiled_loss = ''categorical_crossentropy'', adam_lr = 1/100\<rparr>"
  by (simp add: build_model_def config_ex_def layers_ex_def csr_empty_def L_ex_def)

text \<open>
  C7, amended. In the model built by \<open>build_model\<close> there is one graph-convolution layer
  per configured layer; the input layer and every intermediate layer is constructed with
  an L2 weight regularizer of its configured \<open>l2norm\<close> strength, and the output layer is
  constructed without a weight regularizer.
\<close>

theorem build_model_regularizers:
  assumes "2 \<le> length (model_layers config)"
  shows "\<exists>m. build_model X Y A config = Inr m
     \<and> length (graph_convolutions m) = length (model_layers config)
     \<and> (\<forall>i < length (model_layers config) - 1.
           gc_W_regularizer (graph_convolutions m ! i) = Some (l2 (l2norm (model_layers config ! i))))
     \<and> gc_W_regularizer (last (graph_convolutions m)) = None"
proof -
  from build_model_convolutions[OF assms, of X Y A] obtain m where
    m: "build_model X Y A config = Inr m" and
    gcs: "graph_convolutions m
       = map (\<lambda>i. GraphConvolution (hidden_nodes (model_layers config ! i)) (length A)
                    (num_bases (model_layers config ! i)) (Some (featureless (model_layers config ! i)))
                    (activation (model_layers config ! i)) (Some (l2 (l2norm (model_layers config ! i)))))
           [0..<length (model_layers config) - 1]
         @ [GraphConvolution (ncols Y) (length A) (num_bases (last (model_layers config))) None
              (activation (last (model_layers config))) None]"
    by blast
  show ?thesis
    using assms by (intro exI[of _ m]) (simp add: m gcs nth_append)
qed

theorem build_model_regularizers_witness:
  "2 \<le> length (model_layers config_ex)
   \<and> (\<exists>m. build_model (csr_empty (3, 3)) L_ex [(), ()] config_ex = Inr m
     \<and> length (graph_convolutions m) = 2
     \<and> gc_W_regularizer (graph_convolutions m ! 0) = Some (l2 (5/10000))
     \<and> gc_W_regularizer (last (graph_convolutions m)) = None)"
proof -
  have h: "2 \<le> length (model_layers config_ex)" by (simp add: config_ex_def layers_ex_def)
  have l: "length (model_layers config_ex) = 2" "l2norm (model_layers config_ex ! 0) = 5/10000"
    by (simp_all add: config_ex_def layers_ex_def)
  from build_model_regularizers[OF h, of "csr_empty (3, 3)" L_ex "[(), ()]"] h
  show ?thesis
    by (auto simp: l)
qed

end
